theory Spec2Isabelle
  imports Main "HOL-Library.Word" "HOL-Library.List_Lexorder"
begin

unbundle bit_operations_syntax

section \<open>Data model\<close>

text \<open>
  The engine is the class \<open>BestVideoSource\<close> of \<open>videosource.cpp\<close>. The codec and demuxer
  library is an external collaborator: a decoded picture is an \<open>AVFrame\<close> value, and what the
  library delivers for a given source file is described by a \<open>Media\<close> record further below.
\<close>

type_synonym byte = "8 word"

text \<open>
  The fields of \<open>AVFrame\<close> that the engine reads. \<open>flag_key\<close> and \<open>flag_top_field_first\<close>
  stand for \<open>!!(flags & AV_FRAME_FLAG_KEY)\<close> and \<open>!!(flags & AV_FRAME_FLAG_TOP_FIELD_FIRST)\<close>.
  \<open>data\<close> holds, for each plane, its rows of bytes (a row has \<open>linesize\<close> bytes; a plane whose
  data pointer is null has no rows and line size 0). \<open>buf\<close> holds the sizes of the reference
  counted buffers, \<open>None\<close> for a null \<open>buf[i]\<close>.
\<close>

record AVFrame =
  pts :: "64 word"
  duration :: "64 word"
  repeat_pict :: "32 word"
  flag_key :: bool
  flag_top_field_first :: bool
  format :: int
  width :: int
  height :: int
  data :: "byte list list list"
  linesize :: "nat list"
  buf :: "nat option list"

text \<open>\<open>VideoTrackIndex::FrameInfo\<close>; \<open>Hash\<close> is the 8-byte array holding the XXH3 digest.\<close>

record FrameInfo =
  PTS :: "64 word"
  RepeatPict :: "32 word"
  KeyFrame :: bool
  TFF :: bool
  Hash :: "64 word"

record VideoTrackIndex =
  Frames :: "FrameInfo list"
  LastFrameDuration :: "64 word"

section \<open>Frame cache\<close>

text \<open>
  \<open>Cache::CacheBlock\<close> and \<open>Cache\<close>. The byte counter \<open>Size\<close> of the cache is the field
  \<open>CSize\<close> here (the block's counter keeps the name \<open>Size\<close>); \<open>Data\<close> is the
  \<open>std::list\<close>, most recently used block first.
\<close>

record CacheBlock =
  FrameNumber :: int
  Frame :: AVFrame
  Size :: nat

record Cache =
  Data :: "CacheBlock list"
  CSize :: nat
  MaxSize :: nat

text \<open>The constructor of \<open>CacheBlock\<close>: the sizes of the non-null buffers among \<open>buf[0..3]\<close>.\<close>

definition CacheBlock_new :: "int \<Rightarrow> AVFrame \<Rightarrow> CacheBlock" where
  "CacheBlock_new n f =
     \<lparr>FrameNumber = n, Frame = f,
      Size = sum_list (map (\<lambda>b. case b of None \<Rightarrow> 0 | Some sz \<Rightarrow> sz) (take 4 (buf f)))\<rparr>"

text \<open>
  \<open>ApplyMaxSize\<close>: pop blocks from the back while the counter exceeds the budget.
  \<open>Data.back()\<close> on an empty list is undefined in the source; the loop of the model stops
  there, and \<open>ApplyMaxSize_never_empty\<close> below shows that the case does not arise while the
  counter is the sum of the block sizes.
\<close>

function ApplyMaxSize :: "Cache \<Rightarrow> Cache" where
  "ApplyMaxSize c =
     (if MaxSize c < CSize c \<and> Data c \<noteq> []
      then ApplyMaxSize (c\<lparr>CSize := CSize c - Size (last (Data c)), Data := butlast (Data c)\<rparr>)
      else c)"
  by pat_completeness auto
termination
  by (relation "measure (\<lambda>c. length (Data c))") auto

declare ApplyMaxSize.simps [simp del]

definition Clear :: "Cache \<Rightarrow> Cache" where
  "Clear c = c\<lparr>Data := [], CSize := 0\<rparr>"


text \<open>
  The loop of \<open>CacheFrame\<close> that erases the first block with the given frame number and
  subtracts its size from the counter.
\<close>

fun erase_first :: "int \<Rightarrow> CacheBlock list \<Rightarrow> (CacheBlock list \<times> nat)" where
  "erase_first n [] = ([], 0)"
| "erase_first n (b # bs) =
     (if FrameNumber b = n then (bs, Size b)
      else (case erase_first n bs of (bs', freed) \<Rightarrow> (b # bs', freed)))"

definition CacheFrame :: "int \<Rightarrow> AVFrame \<Rightarrow> Cache \<Rightarrow> Cache" where
  "CacheFrame n f c =
     (case erase_first n (Data c) of (rest, freed) \<Rightarrow>
        (let blk = CacheBlock_new n f
         in ApplyMaxSize (c\<lparr>Data := blk # rest, CSize := CSize c - freed + Size blk\<rparr>)))"

text \<open>
  \<open>Cache::GetFrame\<close>: the first block with frame number \<open>N\<close> is spliced to the front and a
  new \<open>BestVideoFrame\<close> over its frame is returned; \<open>None\<close> is the null pointer.
\<close>

fun splice_front :: "int \<Rightarrow> CacheBlock list \<Rightarrow> (CacheBlock \<times> CacheBlock list) option" where
  "splice_front n [] = None"
| "splice_front n (b # bs) =
     (if FrameNumber b = n then Some (b, bs)
      else (case splice_front n bs of None \<Rightarrow> None | Some (hit, bs') \<Rightarrow> Some (hit, b # bs')))"

definition Cache_GetFrame :: "int \<Rightarrow> Cache \<Rightarrow> AVFrame option \<times> Cache" where
  "Cache_GetFrame n c =
     (case splice_front n (Data c) of
        None \<Rightarrow> (None, c)
      | Some (hit, rest) \<Rightarrow> (Some (Frame hit), c\<lparr>Data := hit # rest\<rparr>))"

text \<open>The cache of a new engine: empty, with the default budget of 1 GiB.\<close>

definition Cache_init :: Cache where
  "Cache_init = \<lparr>Data = [], CSize = 0, MaxSize = 1024 * 1024 * 1024\<rparr>"



text \<open>The bytes held by the cache, and the two properties the cache maintains.\<close>

definition cached_bytes :: "Cache \<Rightarrow> nat" where
  "cached_bytes c = sum_list (map Size (Data c))"


section \<open>Failures\<close>

text \<open>
  The source reports every error by throwing \<open>VideoException\<close> with a message. The
  constructors name the messages that occur in the modelled functions:
  \<^item> \<open>ExtraHWFramesNegative\<close>: "ExtraHWFrames must be 0 or greater";
  \<^item> \<open>IndexingFailed\<close>: "Indexing of '...' track #... failed";
  \<^item> \<open>UnexpectedRFFQuirk\<close>: "Found an unexpected RFF quirk, please submit a bug report and
    attach the source file";
  \<^item> \<open>SeekPreRollRange\<close>: "SeekPreRoll must be between 0 and 40";
  \<^item> \<open>MergedFramesFormat\<close>: "Merged frames must have same format";
  \<^item> \<open>MakeWritableFailed\<close>: "Failed to make AVFrame writable".

  \<open>Undefined\<close> marks an execution to which C++ gives no meaning: an access outside a
  vector, a null dereference, \<open>back()\<close> of an empty list.
\<close>

datatype VideoException =
  ExtraHWFramesNegative
| IndexingFailed
| UnexpectedRFFQuirk
| SeekPreRollRange
| MergedFramesFormat
| MakeWritableFailed

datatype fault = Throw VideoException | Undefined

section \<open>The decoder handle\<close>

text \<open>
  What the codec and demuxer library does with the opened source file:
  \<^item> \<open>stream\<close>: the frames a newly opened decoder delivers, in order, up to end of stream;
  \<^item> \<open>seek_stream\<close>: \<open>av_seek_frame\<close> to a timestamp, \<open>None\<close> when the demuxer rejects the
    seek, otherwise the frames the decoder delivers afterwards;
  \<^item> \<open>codec_h264\<close>: whether \<open>codec_id\<close> is \<open>AV_CODEC_ID_H264\<close>;
  \<^item> \<open>GetHash\<close>: the XXH3 digest of the visible pixel rows of a frame;
  \<^item> \<open>log2_chroma_h\<close>: the field of that name in the pixel format descriptor of a format;
  \<^item> \<open>make_writable\<close>: whether \<open>av_frame_make_writable\<close> succeeds on a frame (it fails when
    the copy of a shared buffer cannot be allocated).
\<close>

record Media =
  stream :: "AVFrame list"
  seek_stream :: "64 word \<Rightarrow> AVFrame list option"
  codec_h264 :: bool
  GetHash :: "AVFrame \<Rightarrow> 64 word"
  log2_chroma_h :: "int \<Rightarrow> nat"
  make_writable :: "AVFrame \<Rightarrow> bool"

text \<open>
  \<open>LWVideoDecoder\<close>. \<open>pending\<close> stands for the demuxer and codec contexts: the frames
  \<open>avcodec_receive_frame\<close> will still deliver.
\<close>

record LWVideoDecoder =
  CurrentFrame :: int
  DecodeSuccess :: bool
  Seeked :: bool
  pending :: "AVFrame list"

definition INT64_MIN :: int where
  "INT64_MIN = - (2 ^ 63)"

definition AV_NOPTS_VALUE :: "64 word" where
  "AV_NOPTS_VALUE = 0x8000000000000000"

text \<open>A decoder right after \<open>OpenFile\<close>.\<close>

definition LWVideoDecoder_new :: "Media \<Rightarrow> LWVideoDecoder" where
  "LWVideoDecoder_new m = \<lparr>CurrentFrame = 0, DecodeSuccess = True, Seeked = False, pending = stream m\<rparr>"

definition DecodeNextFrame :: "LWVideoDecoder \<Rightarrow> AVFrame option \<times> LWVideoDecoder" where
  "DecodeNextFrame d =
     (case pending d of [] \<Rightarrow> (None, d) | f # fs \<Rightarrow> (Some f, d\<lparr>pending := fs\<rparr>))"

definition GetNextFrame :: "LWVideoDecoder \<Rightarrow> AVFrame option \<times> LWVideoDecoder" where
  "GetNextFrame d =
     (if DecodeSuccess d
      then (case DecodeNextFrame d of
              (Some f, d') \<Rightarrow> (Some f, d'\<lparr>DecodeSuccess := True, CurrentFrame := CurrentFrame d' + 1\<rparr>)
            | (None, d') \<Rightarrow> (None, d'\<lparr>DecodeSuccess := False\<rparr>))
      else (None, d))"

text \<open>\<open>SkipFrames\<close>: the loop \<open>while (Count-- > 0)\<close>, by recursion on the count.\<close>

fun SkipFrames_loop :: "nat \<Rightarrow> LWVideoDecoder \<Rightarrow> LWVideoDecoder" where
  "SkipFrames_loop 0 d = d"
| "SkipFrames_loop (Suc k) d =
     (if DecodeSuccess d
      then (case DecodeNextFrame d of
              (Some f, d') \<Rightarrow> SkipFrames_loop k (d'\<lparr>DecodeSuccess := True, CurrentFrame := CurrentFrame d' + 1\<rparr>)
            | (None, d') \<Rightarrow> SkipFrames_loop k (d'\<lparr>DecodeSuccess := False\<rparr>))
      else d)"

definition SkipFrames :: "int \<Rightarrow> LWVideoDecoder \<Rightarrow> LWVideoDecoder" where
  "SkipFrames Count d = SkipFrames_loop (nat Count) d"

definition Seek :: "Media \<Rightarrow> 64 word \<Rightarrow> LWVideoDecoder \<Rightarrow> bool \<times> LWVideoDecoder" where
  "Seek m ts d =
     (let d1 = (if \<not> Seeked d \<and> codec_h264 m then SkipFrames 1 d else d);
          d2 = d1\<lparr>Seeked := True, CurrentFrame := INT64_MIN\<rparr>
      in (case seek_stream m ts of
            None \<Rightarrow> (False, d2\<lparr>DecodeSuccess := False\<rparr>)
          | Some fs \<Rightarrow> (True, d2\<lparr>DecodeSuccess := True, pending := fs\<rparr>)))"

section \<open>The engine\<close>

text \<open>
  Modelled from the spec: the header \<open>videosource.h\<close> with the constants of the class is not
  among the sources. The spec gives \<open>RetrySeekAttempts = 3\<close> and a decoder pool of 4 slots.
\<close>

definition RetrySeekAttempts :: nat where
  "RetrySeekAttempts = 3"

definition MaxVideoSources :: nat where
  "MaxVideoSources = 4"

text \<open>
  The mutable members of \<open>BestVideoSource\<close>. The arrays \<open>Decoders\<close> and \<open>DecoderLastUse\<close>
  are functions on the slot number, read at slots below \<open>MaxVideoSources\<close> only; a null
  \<open>unique_ptr\<close> is \<open>None\<close>. \<open>PreRoll\<close> is a natural number: \<open>SetSeekPreRoll\<close> refuses values
  outside 0..40 and the default is 0.
\<close>

record BestVideoSource =
  TrackIndex :: VideoTrackIndex
  RFFFields :: "(int \<times> int) list"
  FrameCache :: Cache
  Decoders :: "nat \<Rightarrow> LWVideoDecoder option"
  DecoderLastUse :: "nat \<Rightarrow> nat"
  DecoderSequenceNum :: nat
  BadSeekLocations :: "int set"
  PreRoll :: nat
  LinearMode :: bool

text \<open>
  C++ integer division truncates towards zero.
\<close>

definition cdiv :: "int \<Rightarrow> int \<Rightarrow> int" where
  "cdiv a b = sgn a * sgn b * (\<bar>a\<bar> div \<bar>b\<bar>)"

text \<open>
  \<open>VP.NumFrames\<close>, \<open>VP.NumRFFFrames\<close> and \<open>RFFState\<close> are assigned in the constructor
  (lines 796 to 807) and nowhere else; the model reads them off the index. The enumeration
  is declared in the missing header; the source mentions these two values, and the state
  of an engine that uses RFF stays \<open>rffUninitialized\<close>.

  \<open>NumFields += Iter.RepeatPict + 2\<close> adds in \<open>int\<close> (32 bits, wrapping around) and
  accumulates in \<open>int64_t\<close>; \<open>(NumFields + 1) / 2\<close> is a 64-bit addition and a truncating
  division.
\<close>

datatype RFFStateEnum = rffUninitialized | rffUnused

definition NumFields :: "VideoTrackIndex \<Rightarrow> 64 word" where
  "NumFields idx = fold (\<lambda>fi acc. acc + scast (RepeatPict fi + 2)) (Frames idx) 0"

definition NumRFFFrames_of :: "VideoTrackIndex \<Rightarrow> int" where
  "NumRFFFrames_of idx = cdiv (sint (NumFields idx + 1)) 2"

definition VP_NumFrames :: "BestVideoSource \<Rightarrow> int" where
  "VP_NumFrames s = int (length (Frames (TrackIndex s)))"

definition VP_NumRFFFrames :: "BestVideoSource \<Rightarrow> int" where
  "VP_NumRFFFrames s = NumRFFFrames_of (TrackIndex s)"

definition RFFState :: "BestVideoSource \<Rightarrow> RFFStateEnum" where
  "RFFState s = (if VP_NumFrames s = VP_NumRFFFrames s then rffUnused else rffUninitialized)"

section \<open>RFF remapping\<close>

text \<open>
  \<open>InitializeRFF\<close>. The walk carries the table and the two cursors \<open>DestFieldTop\<close> and
  \<open>DestFieldBottom\<close>. The assertions of the source are compiled out of a release build
  (\<open>b_ndebug=if-release\<close>) and are not part of the model; a write or read outside the table
  is \<open>Undefined\<close>.
\<close>

type_synonym rff_walk = "(int \<times> int) list \<times> nat \<times> nat"

fun put_field :: "bool \<Rightarrow> int \<Rightarrow> rff_walk \<Rightarrow> fault + rff_walk" where
  "put_field DestTop N (flds, dtop, dbot) =
     (if DestTop
      then (if dtop < length flds then Inr (flds[dtop := (N, snd (flds ! dtop))], dtop + 1, dbot)
            else Inl Undefined)
      else (if dbot < length flds then Inr (flds[dbot := (fst (flds ! dbot), N)], dtop, dbot + 1)
            else Inl Undefined))"

fun repeat_fields :: "nat \<Rightarrow> bool \<Rightarrow> int \<Rightarrow> rff_walk \<Rightarrow> fault + rff_walk" where
  "repeat_fields 0 DestTop N w = Inr w"
| "repeat_fields (Suc k) DestTop N w =
     (case put_field DestTop N w of
        Inl e \<Rightarrow> Inl e
      | Inr w' \<Rightarrow> repeat_fields k (\<not> DestTop) N w')"

fun walk_frames :: "FrameInfo list \<Rightarrow> int \<Rightarrow> rff_walk \<Rightarrow> fault + rff_walk" where
  "walk_frames [] N w = Inr w"
| "walk_frames (fi # fs) N w =
     (case repeat_fields (nat (sint (RepeatPict fi + 2))) (TFF fi) N w of
        Inl e \<Rightarrow> Inl e
      | Inr w' \<Rightarrow> walk_frames fs (N + 1) w')"

fun pad_fields :: "rff_walk \<Rightarrow> fault + rff_walk" where
  "pad_fields (flds, dtop, dbot) =
     (if dbot < dtop
      then (if dbot < length flds \<and> 0 < dbot
            then Inr (flds[dbot := (fst (flds ! dbot), snd (flds ! (dbot - 1)))], dtop, dbot + 1)
            else Inl Undefined)
      else if dtop < dbot
      then (if dtop < length flds \<and> 0 < dtop
            then Inr (flds[dtop := (fst (flds ! (dtop - 1)), snd (flds ! dtop))], dtop + 1, dbot)
            else Inl Undefined)
      else Inr (flds, dtop, dbot))"

text \<open>\<open>std::vector::resize\<close> with value-initialised new elements.\<close>

definition resize :: "(int \<times> int) list \<Rightarrow> nat \<Rightarrow> (int \<times> int) list" where
  "resize xs n = take n xs @ replicate (n - length xs) (0, 0)"

text \<open>
  The result carries the final values of the two cursors next to the engine with its
  new table. A negative \<open>VP.NumRFFFrames\<close> makes \<open>resize\<close> fail on the converted size.
\<close>

definition InitializeRFF :: "BestVideoSource \<Rightarrow> fault + (BestVideoSource \<times> nat \<times> nat)" where
  "InitializeRFF s =
     (if VP_NumRFFFrames s < 0 then Inl Undefined
      else (case walk_frames (Frames (TrackIndex s)) 0
                   (resize (RFFFields s) (nat (VP_NumRFFFrames s)), 0, 0) of
              Inl e \<Rightarrow> Inl e
            | Inr w \<Rightarrow>
                (case pad_fields w of
                   Inl e \<Rightarrow> Inl e
                 | Inr (flds, dtop, dbot) \<Rightarrow> Inr (s\<lparr>RFFFields := flds\<rparr>, dtop, dbot))))"

definition GetFrameIsTFF :: "int \<Rightarrow> bool \<Rightarrow> BestVideoSource \<Rightarrow> fault + (bool \<times> BestVideoSource)" where
  "GetFrameIsTFF N RFF s =
     (if N < 0 \<or> (VP_NumFrames s \<le> N \<and> \<not> RFF) \<or> (VP_NumRFFFrames s \<le> N \<and> RFF)
      then Inr (False, s)
      else (case (if RFF \<and> RFFState s = rffUninitialized
                  then (case InitializeRFF s of Inl e \<Rightarrow> Inl e | Inr (s', _) \<Rightarrow> Inr s')
                  else Inr s) of
              Inl e \<Rightarrow> Inl e
            | Inr s' \<Rightarrow>
                (if \<not> RFF \<or> RFFState s' = rffUnused
                 then (if nat N < length (Frames (TrackIndex s'))
                       then Inr (TFF (Frames (TrackIndex s') ! nat N), s')
                       else Inl Undefined)
                 else (if nat N < length (RFFFields s')
                       then Inr (fst (RFFFields s' ! nat N) < snd (RFFFields s' ! nat N), s')
                       else Inl Undefined))))"

section \<open>Properties of the frame cache\<close>







lemma ApplyMaxSize_never_empty:
  "CSize c = cached_bytes c \<Longrightarrow> MaxSize c < CSize c \<Longrightarrow> Data c \<noteq> []"
  by (auto simp: cached_bytes_def)





















section \<open>Index persistence\<close>

text \<open>
  A \<open>std::string\<close> and the contents of a file are sequences of bytes. \<open>Options\<close> holds the
  constructor arguments that the index file records: \<open>SourceSize\<close> is
  \<open>GetFileSize(Source)\<close>, \<open>LAVFOptions\<close> the \<open>std::map\<close> of demuxer options as the list of
  its entries in key order.
\<close>

type_synonym bytes = "byte list"

record Options =
  SourceSize :: "64 word"
  VideoTrack :: "32 word"
  VariableFormat :: bool
  HWDevice :: bytes
  LAVFOptions :: "(bytes \<times> bytes) list"

text \<open>
  Modelled from the spec: \<open>bsshared.cpp\<close> with the helpers \<open>WriteInt\<close>, \<open>WriteInt64\<close>,
  \<open>WriteString\<close>, \<open>WriteBSHeader\<close>, \<open>ReadInt\<close>, \<open>ReadInt64\<close>, \<open>ReadString\<close>,
  \<open>ReadCompareInt\<close>, \<open>ReadCompareInt64\<close>, \<open>ReadCompareString\<close> and \<open>ReadBSHeader\<close> is not
  among the sources. The spec fixes the layout: little-endian integers of 4 and 8 bytes, a
  string as its length (4 bytes) and its bytes, the header as the magic "BS2V" and a version.
  The version number \<open>ver\<close> is a parameter. What a read helper returns when the file ends
  early is stated nowhere; the values are the parameters of \<open>ShortRead\<close>.
\<close>

record ShortRead =
  eof_int :: "32 word"
  eof_int64 :: "64 word"
  eof_string :: bytes

fun le_bytes :: "nat \<Rightarrow> nat \<Rightarrow> bytes" where
  "le_bytes 0 v = []"
| "le_bytes (Suc k) v = of_nat (v mod 256) # le_bytes k (v div 256)"

fun le_value :: "bytes \<Rightarrow> nat" where
  "le_value [] = 0"
| "le_value (b # bs) = unat b + 256 * le_value bs"

definition enc_int :: "32 word \<Rightarrow> bytes" where
  "enc_int v = le_bytes 4 (unat v)"

definition enc_int64 :: "64 word \<Rightarrow> bytes" where
  "enc_int64 v = le_bytes 8 (unat v)"

definition enc_string :: "bytes \<Rightarrow> bytes" where
  "enc_string str = enc_int (of_nat (length str)) @ str"

lemma length_le_bytes [simp]: "length (le_bytes k v) = k"
  by (induction k arbitrary: v) auto

lemma unat_byte_of_nat: "unat (of_nat (v mod 256) :: byte) = v mod 256"
  by (simp add: unat_of_nat)

lemma le_value_le_bytes: "le_value (le_bytes k v) = v mod 256 ^ k"
proof (induction k arbitrary: v)
  case 0
  then show ?case by simp
next
  case (Suc k)
  have "le_value (le_bytes (Suc k) v) = v mod 256 + 256 * ((v div 256) mod 256 ^ k)"
    by (simp add: Suc unat_byte_of_nat)
  also have "\<dots> = v mod 256 ^ Suc k"
    by (simp add: mod_mult2_eq)
  finally show ?case .
qed

lemma dec_enc_int: "(of_nat (le_value (enc_int v)) :: 32 word) = v"
proof -
  have "unat v < 2 ^ 32" using unsigned_less [of v] by simp
  then have "unat v mod 256 ^ 4 = unat v" by simp
  then show ?thesis by (simp add: enc_int_def le_value_le_bytes)
qed

lemma dec_enc_int64: "(of_nat (le_value (enc_int64 v)) :: 64 word) = v"
proof -
  have "unat v < 2 ^ 64" using unsigned_less [of v] by simp
  then have "unat v mod 256 ^ 8 = unat v" by simp
  then show ?thesis by (simp add: enc_int64_def le_value_le_bytes)
qed


definition magic_video :: bytes where
  "magic_video = [0x42, 0x53, 0x32, 0x56]"

definition magic_audio :: bytes where
  "magic_audio = [0x42, 0x53, 0x32, 0x41]"

definition WriteInt :: "32 word \<Rightarrow> bytes \<Rightarrow> bytes" where
  "WriteInt v f = f @ enc_int v"

definition WriteInt64 :: "64 word \<Rightarrow> bytes \<Rightarrow> bytes" where
  "WriteInt64 v f = f @ enc_int64 v"

definition WriteString :: "bytes \<Rightarrow> bytes \<Rightarrow> bytes" where
  "WriteString str f = WriteInt (of_nat (length str)) f @ str"

definition WriteBSHeader :: "32 word \<Rightarrow> bool \<Rightarrow> bytes \<Rightarrow> bytes" where
  "WriteBSHeader ver Video f = WriteInt ver (f @ (if Video then magic_video else magic_audio))"

definition ReadInt :: "ShortRead \<Rightarrow> bytes \<Rightarrow> 32 word \<times> bytes" where
  "ReadInt sr f = (if 4 \<le> length f then (of_nat (le_value (take 4 f)), drop 4 f) else (eof_int sr, []))"

definition ReadInt64 :: "ShortRead \<Rightarrow> bytes \<Rightarrow> 64 word \<times> bytes" where
  "ReadInt64 sr f = (if 8 \<le> length f then (of_nat (le_value (take 8 f)), drop 8 f) else (eof_int64 sr, []))"

definition ReadString :: "ShortRead \<Rightarrow> bytes \<Rightarrow> bytes \<times> bytes" where
  "ReadString sr f =
     (case ReadInt sr f of (n, f1) \<Rightarrow>
        (if 0 \<le> sint n \<and> nat (sint n) \<le> length f1
         then (take (nat (sint n)) f1, drop (nat (sint n)) f1)
         else (eof_string sr, [])))"

definition ReadCompareInt :: "ShortRead \<Rightarrow> 32 word \<Rightarrow> bytes \<Rightarrow> bool \<times> bytes" where
  "ReadCompareInt sr v f = (case ReadInt sr f of (x, f1) \<Rightarrow> (x = v, f1))"

definition ReadCompareInt64 :: "ShortRead \<Rightarrow> 64 word \<Rightarrow> bytes \<Rightarrow> bool \<times> bytes" where
  "ReadCompareInt64 sr v f = (case ReadInt64 sr f of (x, f1) \<Rightarrow> (x = v, f1))"

definition ReadCompareString :: "ShortRead \<Rightarrow> bytes \<Rightarrow> bytes \<Rightarrow> bool \<times> bytes" where
  "ReadCompareString sr v f = (case ReadString sr f of (x, f1) \<Rightarrow> (x = v, f1))"

definition ReadBSHeader :: "ShortRead \<Rightarrow> 32 word \<Rightarrow> bool \<Rightarrow> bytes \<Rightarrow> bool \<times> bytes" where
  "ReadBSHeader sr ver Video f =
     (if 4 \<le> length f \<and> take 4 f = (if Video then magic_video else magic_audio)
      then ReadCompareInt sr ver (drop 4 f)
      else (False, drop 4 f))"

text \<open>std::map: strictly sorted association list; operator[] assignment.\<close>

fun map_assign :: "bytes \<Rightarrow> bytes \<Rightarrow> (bytes \<times> bytes) list \<Rightarrow> (bytes \<times> bytes) list" where
  "map_assign k v [] = [(k, v)]"
| "map_assign k v ((k', v') # m) =
     (if k < k' then (k, v) # (k', v') # m
      else if k = k' then (k, v) # m
      else (k', v') # map_assign k v m)"

definition is_map :: "(bytes \<times> bytes) list \<Rightarrow> bool" where
  "is_map m \<longleftrightarrow> sorted_wrt (<) (map fst m)"

definition bool_int :: "bool \<Rightarrow> 32 word" where
  "bool_int b = (if b then 1 else 0)"

definition write_options :: "(bytes \<times> bytes) list \<Rightarrow> bytes \<Rightarrow> bytes" where
  "write_options m f = fold (\<lambda>(k, v) f. WriteString v (WriteString k f)) m f"

definition frame_flags :: "FrameInfo \<Rightarrow> 32 word" where
  "frame_flags fi = bool_int (KeyFrame fi) OR push_bit 1 (bool_int (TFF fi))"

definition write_frame :: "FrameInfo \<Rightarrow> bytes \<Rightarrow> bytes" where
  "write_frame fi f =
     WriteInt (frame_flags fi)
       (WriteInt (RepeatPict fi) (WriteInt64 (PTS fi) (f @ enc_int64 (Hash fi))))"

text \<open>
  \<open>WriteVideoTrackIndex\<close>; \<open>writable\<close> says whether \<open>OpenCacheFile\<close> opens the file for
  writing, and the second component is the file written.
\<close>

definition WriteVideoTrackIndex ::
  "32 word \<Rightarrow> Options \<Rightarrow> VideoTrackIndex \<Rightarrow> bool \<Rightarrow> bool \<times> bytes option" where
  "WriteVideoTrackIndex ver opt idx writable =
     (if \<not> writable then (False, None)
      else (let F = WriteBSHeader ver True [];
                F = WriteInt64 (SourceSize opt) F;
                F = WriteInt (VideoTrack opt) F;
                F = WriteInt (bool_int (VariableFormat opt)) F;
                F = WriteString (HWDevice opt) F;
                F = WriteInt (of_nat (length (LAVFOptions opt))) F;
                F = write_options (LAVFOptions opt) F;
                F = WriteInt64 (of_nat (length (Frames idx))) F;
                F = WriteInt64 (LastFrameDuration idx) F;
                F = fold write_frame (Frames idx) F
            in (True, Some F)))"

text \<open>
  \<open>ReadVideoTrackIndex\<close>; \<open>file\<close> is the contents of the cache file, \<open>None\<close> when it cannot
  be opened. The loops \<open>for (int i = 0; i < LAVFOptCount; i++)\<close> and
  \<open>for (int i = 0; i < NumFrames; i++)\<close> run by recursion on the count. Frames read before a
  short read of a hash stay in \<open>TrackIndex.Frames\<close>.
\<close>

fun read_options :: "ShortRead \<Rightarrow> nat \<Rightarrow> (bytes \<times> bytes) list \<Rightarrow> bytes \<Rightarrow> (bytes \<times> bytes) list \<times> bytes" where
  "read_options sr 0 m f = (m, f)"
| "read_options sr (Suc n) m f =
     (case ReadString sr f of (Key, f1) \<Rightarrow>
        (case ReadString sr f1 of (Val, f2) \<Rightarrow> read_options sr n (map_assign Key Val m) f2))"

fun read_frames :: "ShortRead \<Rightarrow> nat \<Rightarrow> FrameInfo list \<Rightarrow> bytes \<Rightarrow> bool \<times> FrameInfo list" where
  "read_frames sr 0 frs f = (True, frs)"
| "read_frames sr (Suc n) frs f =
     (if length f < 8 then (False, frs)
      else (case ReadInt64 sr (drop 8 f) of (p, f1) \<Rightarrow>
             (case ReadInt sr f1 of (rp, f2) \<Rightarrow>
               (case ReadInt sr f2 of (Flags, f3) \<Rightarrow>
                  read_frames sr n
                    (frs @ [\<lparr>PTS = p, RepeatPict = rp, KeyFrame = (Flags AND 1 \<noteq> 0),
                             TFF = (Flags AND 2 \<noteq> 0), Hash = of_nat (le_value (take 8 f))\<rparr>]) f3))))"

definition ReadVideoTrackIndex ::
  "ShortRead \<Rightarrow> 32 word \<Rightarrow> Options \<Rightarrow> bytes option \<Rightarrow> VideoTrackIndex \<Rightarrow> bool \<times> VideoTrackIndex" where
  "ReadVideoTrackIndex sr ver opt file idx =
     (case file of
        None \<Rightarrow> (False, idx)
      | Some f0 \<Rightarrow>
          (case ReadBSHeader sr ver True f0 of (ok1, f1) \<Rightarrow>
           if \<not> ok1 then (False, idx) else
          (case ReadCompareInt64 sr (SourceSize opt) f1 of (ok2, f2) \<Rightarrow>
           if \<not> ok2 then (False, idx) else
          (case ReadCompareInt sr (VideoTrack opt) f2 of (ok3, f3) \<Rightarrow>
           if \<not> ok3 then (False, idx) else
          (case ReadCompareInt sr (bool_int (VariableFormat opt)) f3 of (ok4, f4) \<Rightarrow>
           if \<not> ok4 then (False, idx) else
          (case ReadCompareString sr (HWDevice opt) f4 of (ok5, f5) \<Rightarrow>
           if \<not> ok5 then (False, idx) else
          (case ReadInt sr f5 of (LAVFOptCount, f6) \<Rightarrow>
          (case read_options sr (nat (sint LAVFOptCount)) [] f6 of (IndexLAVFOptions, f7) \<Rightarrow>
           if LAVFOptions opt \<noteq> IndexLAVFOptions then (False, idx) else
          (case ReadInt64 sr f7 of (NumFrames, f8) \<Rightarrow>
          (case ReadInt64 sr f8 of (dur, f9) \<Rightarrow>
          (case read_frames sr (nat (sint NumFrames)) (Frames idx) f9 of (ok, frs) \<Rightarrow>
             (ok, \<lparr>Frames = frs, LastFrameDuration = dur\<rparr>))))))))))))"


section \<open>Reading back what was written\<close>

lemma ReadInt_enc: "ReadInt sr (enc_int v @ rest) = (v, rest)"
proof -
  have "length (enc_int v) = 4" by (simp add: enc_int_def)
  then show ?thesis by (simp add: ReadInt_def dec_enc_int)
qed

lemma ReadInt64_enc: "ReadInt64 sr (enc_int64 v @ rest) = (v, rest)"
proof -
  have "length (enc_int64 v) = 8" by (simp add: enc_int64_def)
  then show ?thesis by (simp add: ReadInt64_def dec_enc_int64)
qed

lemma sint_of_nat_32: "n < 2 ^ 31 \<Longrightarrow> sint (of_nat n :: 32 word) = int n"
  by (simp add: signed_of_nat signed_take_bit_int_eq_self)

lemma sint_of_nat_64: "n < 2 ^ 63 \<Longrightarrow> sint (of_nat n :: 64 word) = int n"
  by (simp add: signed_of_nat signed_take_bit_int_eq_self)

lemma ReadString_enc:
  "length str < 2 ^ 31 \<Longrightarrow> ReadString sr (enc_string str @ rest) = (str, rest)"
  by (simp add: ReadString_def enc_string_def ReadInt_enc sint_of_nat_32)

lemma WriteString_enc: "WriteString str f = f @ enc_string str"
  by (simp add: WriteString_def WriteInt_def enc_string_def)

definition enc_options :: "(bytes \<times> bytes) list \<Rightarrow> bytes" where
  "enc_options m = concat (map (\<lambda>(k, v). enc_string k @ enc_string v) m)"

lemma write_options_enc: "write_options m f = f @ enc_options m"
  unfolding write_options_def enc_options_def
  by (induction m arbitrary: f) (auto simp: WriteString_enc)

definition enc_frame :: "FrameInfo \<Rightarrow> bytes" where
  "enc_frame fi = enc_int64 (Hash fi) @ enc_int64 (PTS fi) @ enc_int (RepeatPict fi) @
     enc_int (frame_flags fi)"

lemma write_frame_enc: "write_frame fi f = f @ enc_frame fi"
  by (simp add: write_frame_def enc_frame_def WriteInt_def WriteInt64_def)

lemma write_frames_enc: "fold write_frame frs f = f @ concat (map enc_frame frs)"
  by (induction frs arbitrary: f) (auto simp: write_frame_enc)

definition strings_fit :: "(bytes \<times> bytes) list \<Rightarrow> bool" where
  "strings_fit m \<longleftrightarrow> list_all (\<lambda>(k, v). length k < 2 ^ 31 \<and> length v < 2 ^ 31) m"

lemma read_options_enc:
  "strings_fit m \<Longrightarrow>
     read_options sr (length m) acc (enc_options m @ rest) = (fold (\<lambda>(k, v). map_assign k v) m acc, rest)"
proof (induction m arbitrary: acc)
  case Nil
  then show ?case by (simp add: enc_options_def)
next
  case (Cons kv m)
  obtain k v where kv: "kv = (k, v)" by (cases kv)
  from Cons.prems kv have fit: "length k < 2 ^ 31" "length v < 2 ^ 31" "strings_fit m"
    by (simp_all add: strings_fit_def)
  have "enc_options (kv # m) @ rest = enc_string k @ enc_string v @ enc_options m @ rest"
    by (simp add: enc_options_def kv)
  then show ?case
    using fit Cons.IH [OF fit(3)] by (simp add: kv ReadString_enc)
qed

lemma map_assign_last:
  "sorted_wrt (<) (map fst (m @ [(k, v)])) \<Longrightarrow> map_assign k v m = m @ [(k, v)]"
proof (induction m)
  case Nil
  then show ?case by simp
next
  case (Cons a m)
  obtain k' v' where a: "a = (k', v')" by (cases a)
  from Cons.prems a have "k' < k" by (auto simp: sorted_wrt_append)
  moreover from Cons.prems have "sorted_wrt (<) (map fst (m @ [(k, v)]))" by simp
  ultimately show ?case using Cons.IH a by auto
qed

lemma fold_map_assign:
  "is_map m \<Longrightarrow> fold (\<lambda>(k, v). map_assign k v) m [] = m"
proof (induction m rule: rev_induct)
  case Nil
  then show ?case by simp
next
  case (snoc kv m)
  obtain k v where kv: "kv = (k, v)" by (cases kv)
  from snoc.prems have "is_map m" by (simp add: is_map_def sorted_wrt_append)
  with snoc.IH have "fold (\<lambda>(k, v). map_assign k v) m [] = m" by simp
  moreover from snoc.prems kv have "map_assign k v m = m @ [(k, v)]"
    by (intro map_assign_last) (simp add: is_map_def)
  ultimately show ?case by (simp add: kv)
qed

lemma flags_key: "(frame_flags fi AND 1 \<noteq> 0) = KeyFrame fi"
  by (cases "KeyFrame fi"; cases "TFF fi") (simp_all add: frame_flags_def bool_int_def)

lemma flags_tff: "(frame_flags fi AND 2 \<noteq> 0) = TFF fi"
  by (cases "KeyFrame fi"; cases "TFF fi") (simp_all add: frame_flags_def bool_int_def)

lemma FrameInfo_rebuild:
  "\<lparr>PTS = PTS fi, RepeatPict = RepeatPict fi, KeyFrame = KeyFrame fi, TFF = TFF fi, Hash = Hash fi\<rparr> = fi"
  by (cases fi) simp

lemma read_frames_enc:
  "read_frames sr (length frs) acc (concat (map enc_frame frs) @ rest) = (True, acc @ frs)"
proof (induction frs arbitrary: acc)
  case Nil
  then show ?case by simp
next
  case (Cons fi frs)
  have len: "length (enc_int64 (Hash fi)) = 8" by (simp add: enc_int64_def)
  let ?tail = "enc_int64 (PTS fi) @ enc_int (RepeatPict fi) @
     enc_int (frame_flags fi) @ concat (map enc_frame frs) @ rest"
  have split: "concat (map enc_frame (fi # frs)) @ rest = enc_int64 (Hash fi) @ ?tail"
    by (simp add: enc_frame_def)
  have "read_frames sr (Suc (length frs)) acc (enc_int64 (Hash fi) @ ?tail) =
        read_frames sr (length frs) (acc @ [fi]) (concat (map enc_frame frs) @ rest)"
    using len by (simp add: ReadInt64_enc ReadInt_enc flags_key flags_tff dec_enc_int64 FrameInfo_rebuild)
  with Cons.IH [of "acc @ [fi]"] split show ?case by simp
qed


definition params_fit :: "Options \<Rightarrow> bool" where
  "params_fit opt \<longleftrightarrow>
     length (HWDevice opt) < 2 ^ 31 \<and> length (LAVFOptions opt) < 2 ^ 31 \<and>
     strings_fit (LAVFOptions opt) \<and> is_map (LAVFOptions opt)"

definition index_bytes :: "32 word \<Rightarrow> Options \<Rightarrow> VideoTrackIndex \<Rightarrow> bytes" where
  "index_bytes ver w idx =
     magic_video @ enc_int ver @ enc_int64 (SourceSize w) @ enc_int (VideoTrack w) @
     enc_int (bool_int (VariableFormat w)) @ enc_string (HWDevice w) @
     enc_int (of_nat (length (LAVFOptions w))) @ enc_options (LAVFOptions w) @
     enc_int64 (of_nat (length (Frames idx))) @ enc_int64 (LastFrameDuration idx) @
     concat (map enc_frame (Frames idx))"

lemma WriteVideoTrackIndex_bytes:
  "WriteVideoTrackIndex ver w idx True = (True, Some (index_bytes ver w idx))"
  by (simp add: WriteVideoTrackIndex_def index_bytes_def Let_def WriteBSHeader_def WriteInt_def
      WriteInt64_def WriteString_enc write_options_enc write_frames_enc)

lemma ReadBSHeader_enc: "ReadBSHeader sr ver True (magic_video @ enc_int ver @ rest) = (True, rest)"
  by (simp add: ReadBSHeader_def ReadCompareInt_def ReadInt_enc magic_video_def)

lemma bool_int_eq: "bool_int a = bool_int b \<longleftrightarrow> a = b"
  by (simp add: bool_int_def)

lemma ReadVideoTrackIndex_bytes:
  assumes "params_fit w" and "length (Frames idx) < 2 ^ 31"
  shows "ReadVideoTrackIndex sr ver opt (Some (index_bytes ver w idx)) idx0 =
     (if SourceSize opt = SourceSize w \<and> VideoTrack opt = VideoTrack w \<and>
         VariableFormat opt = VariableFormat w \<and> HWDevice opt = HWDevice w \<and>
         LAVFOptions opt = LAVFOptions w
      then (True, \<lparr>Frames = Frames idx0 @ Frames idx, LastFrameDuration = LastFrameDuration idx\<rparr>)
      else (False, idx0))"
proof -
  from assms have hw: "length (HWDevice w) < 2 ^ 31" and n: "length (LAVFOptions w) < 2 ^ 31"
    and fit: "strings_fit (LAVFOptions w)" and m: "is_map (LAVFOptions w)"
    by (simp_all add: params_fit_def)
  from assms(2) have k: "length (Frames idx) < 2 ^ 63"
    by (rule less_trans) simp
  have opts: "read_options sr (length (LAVFOptions w)) [] (enc_options (LAVFOptions w) @ rest) =
      (LAVFOptions w, rest)" for rest
    using read_options_enc [OF fit, of sr "[]" rest] fold_map_assign [OF m] by simp
  show ?thesis
    unfolding ReadVideoTrackIndex_def index_bytes_def
    by (simp add: ReadBSHeader_enc ReadCompareInt64_def ReadInt64_enc ReadCompareInt_def
        ReadInt_enc ReadCompareString_def ReadString_enc [OF hw] bool_int_eq sint_of_nat_32 [OF n]
        sint_of_nat_64 [OF k] opts read_frames_enc [where rest = "[]", simplified] eq_commute [of "SourceSize w"]
        eq_commute [of "VideoTrack w"] eq_commute [of "VariableFormat w"]
        eq_commute [of "HWDevice w"])
qed







lemma VideoTrackIndex_rebuild:
  "\<lparr>Frames = Frames idx, LastFrameDuration = LastFrameDuration idx\<rparr> = idx"
  by (cases idx) simp

text \<open>
  Claim C7. An index written by \<open>WriteVideoTrackIndex\<close> and read back by
  \<open>ReadVideoTrackIndex\<close> into an empty index is reconstructed identically (every frame
  record and \<open>LastFrameDuration\<close>) when source size, track number, variable-format flag,
  hw-device string and demuxer options of the reader equal those of the writer; when any
  of the five differs the read returns false and leaves the index as it was. The strings
  and counts of the writer fit the 4-byte length fields.
\<close>

theorem index_round_trip:
  assumes "params_fit w" and "length (Frames idx) < 2 ^ 31"
  shows "ReadVideoTrackIndex sr ver opt (snd (WriteVideoTrackIndex ver w idx True))
           \<lparr>Frames = [], LastFrameDuration = d0\<rparr> =
     (if SourceSize opt = SourceSize w \<and> VideoTrack opt = VideoTrack w \<and>
         VariableFormat opt = VariableFormat w \<and> HWDevice opt = HWDevice w \<and>
         LAVFOptions opt = LAVFOptions w
      then (True, idx)
      else (False, \<lparr>Frames = [], LastFrameDuration = d0\<rparr>))"
  using ReadVideoTrackIndex_bytes [OF assms, of sr ver opt "\<lparr>Frames = [], LastFrameDuration = d0\<rparr>"]
  by (simp add: WriteVideoTrackIndex_bytes VideoTrackIndex_rebuild)

text \<open>A concrete writer for the witness: two options, two frame records.\<close>

definition sample_options :: Options where
  "sample_options = \<lparr>SourceSize = 123456, VideoTrack = 0, VariableFormat = False,
     HWDevice = [], LAVFOptions = [([0x61], [0x31]), ([0x62], [0x32, 0x33])]\<rparr>"

definition sample_index :: VideoTrackIndex where
  "sample_index = \<lparr>Frames =
      [\<lparr>PTS = 0, RepeatPict = 0, KeyFrame = True, TFF = True, Hash = 0x1122334455667788\<rparr>,
       \<lparr>PTS = 1001, RepeatPict = 1, KeyFrame = False, TFF = False, Hash = 0x99\<rparr>],
     LastFrameDuration = 1001\<rparr>"

definition sample_short :: ShortRead where
  "sample_short = \<lparr>eof_int = - 1, eof_int64 = - 1, eof_string = []\<rparr>"

lemma sample_fit: "params_fit sample_options"
  by (simp add: params_fit_def sample_options_def strings_fit_def is_map_def)

theorem index_round_trip_witness:
  "params_fit sample_options \<and> length (Frames sample_index) < 2 ^ 31 \<and>
   ReadVideoTrackIndex sample_short 7 sample_options
     (snd (WriteVideoTrackIndex 7 sample_options sample_index True))
     \<lparr>Frames = [], LastFrameDuration = 0\<rparr> = (True, sample_index) \<and>
   ReadVideoTrackIndex sample_short 7 (sample_options\<lparr>VariableFormat := True\<rparr>)
     (snd (WriteVideoTrackIndex 7 sample_options sample_index True))
     \<lparr>Frames = [], LastFrameDuration = 0\<rparr> = (False, \<lparr>Frames = [], LastFrameDuration = 0\<rparr>)"
proof -
  have len: "length (Frames sample_index) < 2 ^ 31"
    by (simp add: sample_index_def)
  show ?thesis
    using index_round_trip [OF sample_fit len, of sample_short 7 sample_options 0]
      index_round_trip [OF sample_fit len, of sample_short 7 "sample_options\<lparr>VariableFormat := True\<rparr>" 0]
      sample_fit len
    by (simp add: sample_options_def)
qed




section \<open>Index build and engine construction\<close>

text \<open>The record \<open>IndexTrack\<close> appends for a decoded frame.\<close>

definition FrameInfo_of :: "Media \<Rightarrow> AVFrame \<Rightarrow> FrameInfo" where
  "FrameInfo_of m F =
     \<lparr>PTS = pts F, RepeatPict = repeat_pict F, KeyFrame = flag_key F,
      TFF = flag_top_field_first F, Hash = GetHash m F\<rparr>"

text \<open>
  \<open>IndexTrack\<close>: a new decoder is read to the end of the stream. The progress callback has
  no effect on the result and is left out.
\<close>

function IndexTrack_loop :: "Media \<Rightarrow> LWVideoDecoder \<Rightarrow> VideoTrackIndex \<Rightarrow> VideoTrackIndex" where
  "IndexTrack_loop m d idx =
     (case GetNextFrame d of
        (None, d') \<Rightarrow> idx
      | (Some F, d') \<Rightarrow>
          IndexTrack_loop m d'
            (idx\<lparr>Frames := Frames idx @ [FrameInfo_of m F], LastFrameDuration := duration F\<rparr>))"
  by pat_completeness auto
termination
  by (relation "measure (\<lambda>(m, d, idx). length (pending d))")
     (auto simp: GetNextFrame_def DecodeNextFrame_def split: if_splits list.splits)

declare IndexTrack_loop.simps [simp del]

definition IndexTrack :: "Media \<Rightarrow> VideoTrackIndex \<Rightarrow> bool \<times> VideoTrackIndex" where
  "IndexTrack m idx =
     (let idx' = IndexTrack_loop m (LWVideoDecoder_new m) (idx\<lparr>LastFrameDuration := 0\<rparr>)
      in (Frames idx' \<noteq> [], idx'))"

text \<open>
  The constructor of \<open>BestVideoSource\<close>. \<open>cache_file\<close> is the contents of the index file
  (\<open>None\<close> when there is none), \<open>writable\<close> whether it can be written, \<open>d0\<close> the value of
  \<open>LastFrameDuration\<close> in the new \<open>TrackIndex\<close>. \<open>Media\<close> describes a source that the
  library opens, so the exceptions of \<open>OpenFile\<close> are not part of the model.
  \<open>GetVideoProperties\<close> takes the first frame from the decoder that becomes \<open>Decoders[0]\<close>.
  \<open>TrackIndex.Frames[0]\<close> of an empty vector (a loaded index of zero frames) is \<open>Undefined\<close>.
  The counters \<open>DecoderLastUse\<close> and \<open>DecoderSequenceNum\<close> start at 0. The result carries
  the index file as it is afterwards.
\<close>

definition BestVideoSource_new ::
  "Media \<Rightarrow> ShortRead \<Rightarrow> 32 word \<Rightarrow> Options \<Rightarrow> int \<Rightarrow> bytes option \<Rightarrow> bool \<Rightarrow> 64 word
     \<Rightarrow> fault + (BestVideoSource \<times> bytes option)" where
  "BestVideoSource_new m sr ver opt ExtraHWFrames cache_file writable d0 =
     (if ExtraHWFrames < 0 then Inl (Throw ExtraHWFramesNegative)
      else
        (let Decoder = snd (GetNextFrame (LWVideoDecoder_new m));
             loaded = ReadVideoTrackIndex sr ver opt cache_file \<lparr>Frames = [], LastFrameDuration = d0\<rparr>;
             indexed =
               (if fst loaded then Inr (snd loaded, cache_file)
                else (case IndexTrack m (snd loaded) of
                        (False, idx) \<Rightarrow> Inl (Throw IndexingFailed)
                      | (True, idx) \<Rightarrow>
                          Inr (idx, (case WriteVideoTrackIndex ver opt idx writable of
                                       (True, written) \<Rightarrow> written
                                     | (False, _) \<Rightarrow> cache_file))))
         in (case indexed of
               Inl e \<Rightarrow> Inl e
             | Inr (idx, file) \<Rightarrow>
                 (case Frames idx of
                    [] \<Rightarrow> Inl Undefined
                  | fi # _ \<Rightarrow>
                      if sint (RepeatPict fi) < 0 then Inl (Throw UnexpectedRFFQuirk)
                      else Inr (\<lparr>TrackIndex = idx, RFFFields = [], FrameCache = Cache_init,
                                 Decoders = (\<lambda>i. None)(0 := Some Decoder),
                                 DecoderLastUse = (\<lambda>i. 0), DecoderSequenceNum = 0,
                                 BadSeekLocations = {}, PreRoll = 0, LinearMode = False\<rparr>, file)))))"

lemma IndexTrack_loop_frames:
  "DecodeSuccess d \<Longrightarrow>
     Frames (IndexTrack_loop m d idx) = Frames idx @ map (FrameInfo_of m) (pending d)"
proof (induction "pending d" arbitrary: d idx)
  case Nil
  then show ?case
    by (subst IndexTrack_loop.simps) (simp add: GetNextFrame_def DecodeNextFrame_def)
next
  case (Cons F fs)
  let ?d' = "d\<lparr>pending := fs, DecodeSuccess := True, CurrentFrame := CurrentFrame d + 1\<rparr>"
  let ?idx' = "idx\<lparr>Frames := Frames idx @ [FrameInfo_of m F], LastFrameDuration := duration F\<rparr>"
  from Cons.hyps(2) Cons.prems have next_frame: "GetNextFrame d = (Some F, ?d')"
    by (simp add: GetNextFrame_def DecodeNextFrame_def Cons.hyps(2) [symmetric])
  have "Frames (IndexTrack_loop m ?d' ?idx') = Frames ?idx' @ map (FrameInfo_of m) (pending ?d')"
    by (rule Cons.hyps(1)) simp_all
  moreover have "IndexTrack_loop m d idx = IndexTrack_loop m ?d' ?idx'"
    by (subst IndexTrack_loop.simps) (simp add: next_frame)
  ultimately show ?case
    by (simp add: Cons.hyps(2) [symmetric])
qed

lemma IndexTrack_frames:
  "Frames (snd (IndexTrack m idx)) = Frames idx @ map (FrameInfo_of m) (stream m)"
  using IndexTrack_loop_frames [of "LWVideoDecoder_new m" m "idx\<lparr>LastFrameDuration := 0\<rparr>"]
  by (simp add: IndexTrack_def Let_def LWVideoDecoder_new_def)

lemma IndexTrack_ok: "fst (IndexTrack m idx) \<longleftrightarrow> Frames (snd (IndexTrack m idx)) \<noteq> []"
  by (simp add: IndexTrack_def Let_def)




text \<open>
  Sample sources: frames without pixel data, a library that rejects every seek, and the
  timestamp of a frame as its digest.
\<close>

definition plain_frame :: "64 word \<Rightarrow> 32 word \<Rightarrow> bool \<Rightarrow> bool \<Rightarrow> AVFrame" where
  "plain_frame ts rp key tff =
     \<lparr>pts = ts, duration = 1, repeat_pict = rp, flag_key = key, flag_top_field_first = tff,
      format = 0, width = 2, height = 2, data = [], linesize = [], buf = []\<rparr>"

definition plain_media :: "AVFrame list \<Rightarrow> Media" where
  "plain_media fs =
     \<lparr>stream = fs, seek_stream = (\<lambda>ts. None), codec_h264 = False, GetHash = pts,
      log2_chroma_h = (\<lambda>fmt. 0),
      make_writable = (\<lambda>F. True)\<rparr>"




section \<open>Properties of the RFF remapping\<close>

definition rff_record :: "32 word \<Rightarrow> bool \<Rightarrow> FrameInfo" where
  "rff_record rp tff = \<lparr>PTS = 0, RepeatPict = rp, KeyFrame = True, TFF = tff, Hash = 0\<rparr>"

definition double_tff_index :: VideoTrackIndex where
  "double_tff_index = \<lparr>Frames = [rff_record 1 True, rff_record 1 True], LastFrameDuration = 1\<rparr>"

lemma double_tff_NumRFFFrames: "NumRFFFrames_of double_tff_index = 3"
  by (simp add: NumRFFFrames_of_def NumFields_def double_tff_index_def rff_record_def cdiv_def)

text \<open>
  Claim C4 at the index of two frames that both have \<open>repeat_pict = 1\<close> and
  \<open>top_field_first\<close> set. \<open>VP.NumRFFFrames\<close> is 3. The first frame leaves the cursors at 2
  (top) and 1 (bottom); the first two fields of the second frame move them to 3 and 2; its
  third field is written at \<open>RFFFields[3]\<close>, outside the table of 3 entries. The table build
  does not end with both cursors equal to \<open>VP.NumRFFFrames\<close>.
\<close>

theorem InitializeRFF_double_tff:
  "VP_NumRFFFrames (s\<lparr>TrackIndex := double_tff_index, RFFFields := []\<rparr>) = 3 \<and>
   walk_frames [rff_record 1 True] 0 ([(0, 0), (0, 0), (0, 0)], 0, 0) =
     Inr ([(0, 0), (0, 0), (0, 0)], 2, 1) \<and>
   repeat_fields 2 True 1 ([(0, 0), (0, 0), (0, 0)], 2, 1) = Inr ([(0, 0), (0, 1), (1, 0)], 3, 2) \<and>
   put_field True 1 ([(0, 0), (0, 1), (1, 0)], 3, 2) = Inl Undefined \<and>
   walk_frames (Frames double_tff_index) 0 ([(0, 0), (0, 0), (0, 0)], 0, 0) = Inl Undefined \<and>
   InitializeRFF (s\<lparr>TrackIndex := double_tff_index, RFFFields := []\<rparr>) = Inl Undefined"
proof -
  have n: "VP_NumRFFFrames (s\<lparr>TrackIndex := double_tff_index, RFFFields := []\<rparr>) = 3"
    by (simp add: VP_NumRFFFrames_def double_tff_NumRFFFrames)
  have w: "walk_frames (Frames double_tff_index) 0 ([(0, 0), (0, 0), (0, 0)], 0, 0) = Inl Undefined"
    by (simp add: double_tff_index_def rff_record_def numeral_3_eq_3)
  have r: "resize [] 3 = [(0, 0), (0, 0), (0, 0)]"
    by (simp add: resize_def numeral_3_eq_3)
  have a: "walk_frames [rff_record 1 True] 0 ([(0, 0), (0, 0), (0, 0)], 0, 0) =
      Inr ([(0, 0), (0, 0), (0, 0)], 2, 1)"
    by (simp add: rff_record_def numeral_3_eq_3)
  have b: "repeat_fields 2 True 1 ([(0, 0), (0, 0), (0, 0)], 2, 1) = Inr ([(0, 0), (0, 1), (1, 0)], 3, 2)"
    by (simp add: numeral_2_eq_2)
  from n w r a b show ?thesis
    by (simp add: InitializeRFF_def)
qed


lemma put_field_length: "put_field t N (flds, a, b) = Inr (flds', a', b') \<Longrightarrow> length flds' = length flds"
  by (auto split: if_splits)

lemma repeat_fields_length:
  "repeat_fields k t N (flds, a, b) = Inr (flds', a', b') \<Longrightarrow> length flds' = length flds"
proof (induction k arbitrary: t flds a b)
  case 0
  then show ?case by simp
next
  case (Suc k)
  from Suc.prems obtain w where w: "put_field t N (flds, a, b) = Inr w"
    and rest: "repeat_fields k (\<not> t) N w = Inr (flds', a', b')"
    by (auto split: sum.splits)
  obtain f1 a1 b1 where w1: "w = (f1, a1, b1)" by (cases w)
  from w w1 have "put_field t N (flds, a, b) = Inr (f1, a1, b1)" by (simp only:)
  then have "length f1 = length flds" by (rule put_field_length)
  moreover from rest w1 Suc.IH have "length flds' = length f1" by blast
  ultimately show ?case by simp
qed

lemma walk_frames_length:
  "walk_frames frs N (flds, a, b) = Inr (flds', a', b') \<Longrightarrow> length flds' = length flds"
proof (induction frs arbitrary: N flds a b)
  case Nil
  then show ?case by simp
next
  case (Cons fi frs)
  from Cons.prems obtain w where w: "repeat_fields (nat (sint (RepeatPict fi + 2))) (TFF fi) N (flds, a, b) = Inr w"
    and rest: "walk_frames frs (N + 1) w = Inr (flds', a', b')"
    by (auto split: sum.splits)
  obtain f1 a1 b1 where w1: "w = (f1, a1, b1)" by (cases w)
  from w w1 have "repeat_fields (nat (sint (RepeatPict fi + 2))) (TFF fi) N (flds, a, b) = Inr (f1, a1, b1)"
    by (simp only:)
  then have "length f1 = length flds" by (rule repeat_fields_length)
  moreover from rest w1 Cons.IH have "length flds' = length f1" by blast
  ultimately show ?case by simp
qed

lemma pad_fields_length: "pad_fields (flds, a, b) = Inr (flds', a', b') \<Longrightarrow> length flds' = length flds"
  by (auto split: if_splits)

lemma length_resize: "length (resize xs n) = n"
  by (simp add: resize_def)

lemma InitializeRFF_result:
  assumes "InitializeRFF s = Inr (s', a, b)"
  shows "TrackIndex s' = TrackIndex s \<and> int (length (RFFFields s')) = VP_NumRFFFrames s"
proof -
  from assms have nn: "0 \<le> VP_NumRFFFrames s"
    by (auto simp: InitializeRFF_def split: if_splits)
  let ?tbl = "resize (RFFFields s) (nat (VP_NumRFFFrames s))"
  from assms nn obtain w where w: "walk_frames (Frames (TrackIndex s)) 0 (?tbl, 0, 0) = Inr w"
    and p: "pad_fields w = Inr (RFFFields s', a, b)" and s': "s' = s\<lparr>RFFFields := RFFFields s'\<rparr>"
    by (auto simp: InitializeRFF_def split: if_splits sum.splits)
  obtain f1 a1 b1 where w1: "w = (f1, a1, b1)" by (cases w)
  from w w1 have "walk_frames (Frames (TrackIndex s)) 0 (?tbl, 0, 0) = Inr (f1, a1, b1)"
    by (simp only:)
  then have "length f1 = length ?tbl" by (rule walk_frames_length)
  moreover from p w1 have "pad_fields (f1, a1, b1) = Inr (RFFFields s', a, b)"
    by (simp only:)
  then have "length (RFFFields s') = length f1" by (rule pad_fields_length)
  ultimately have "length (RFFFields s') = nat (VP_NumRFFFrames s)" by (simp add: length_resize)
  moreover from s' have "TrackIndex s' = TrackIndex s" by (metis BestVideoSource.select_convs(1) BestVideoSource.surjective BestVideoSource.update_convs(2))
  ultimately show ?thesis using nn by simp
qed

text \<open>
  The cases of \<open>GetFrameIsTFF\<close> that do not use the RFF table: false, leaving the engine as
  it is, for \<open>N < 0\<close>, for \<open>N \<ge> NumFrames\<close> without the RFF flag and for \<open>N \<ge> NumRFFFrames\<close>
  with it; the \<open>TFF\<close> flag of the index for \<open>N\<close> in range without the RFF flag or when RFF is
  unused.
\<close>

lemma GetFrameIsTFF_plain:
  "(N < 0 \<or> (\<not> RFF \<and> VP_NumFrames s \<le> N) \<or> (RFF \<and> VP_NumRFFFrames s \<le> N) \<longrightarrow>
      GetFrameIsTFF N RFF s = Inr (False, s)) \<and>
   (0 \<le> N \<and> N < VP_NumFrames s \<and> \<not> RFF \<longrightarrow>
      GetFrameIsTFF N RFF s = Inr (TFF (Frames (TrackIndex s) ! nat N), s)) \<and>
   (0 \<le> N \<and> N < VP_NumRFFFrames s \<and> RFF \<and> RFFState s = rffUnused \<longrightarrow>
      GetFrameIsTFF N RFF s = Inr (TFF (Frames (TrackIndex s) ! nat N), s))"
proof (intro conjI impI)
  assume "N < 0 \<or> (\<not> RFF \<and> VP_NumFrames s \<le> N) \<or> (RFF \<and> VP_NumRFFFrames s \<le> N)"
  then show "GetFrameIsTFF N RFF s = Inr (False, s)"
    by (auto simp: GetFrameIsTFF_def)
next
  assume "0 \<le> N \<and> N < VP_NumFrames s \<and> \<not> RFF"
  then show "GetFrameIsTFF N RFF s = Inr (TFF (Frames (TrackIndex s) ! nat N), s)"
    by (auto simp: GetFrameIsTFF_def VP_NumFrames_def)
next
  assume a: "0 \<le> N \<and> N < VP_NumRFFFrames s \<and> RFF \<and> RFFState s = rffUnused"
  then have "VP_NumFrames s = VP_NumRFFFrames s"
    by (auto simp: RFFState_def split: if_splits)
  with a show "GetFrameIsTFF N RFF s = Inr (TFF (Frames (TrackIndex s) ! nat N), s)"
    by (auto simp: GetFrameIsTFF_def VP_NumFrames_def)
qed


text \<open>An engine over a given index with an empty cache and no decoder, for witnesses.\<close>

definition idle_engine :: "VideoTrackIndex \<Rightarrow> BestVideoSource" where
  "idle_engine idx =
     \<lparr>TrackIndex = idx, RFFFields = [], FrameCache = Cache_init, Decoders = (\<lambda>i. None),
      DecoderLastUse = (\<lambda>i. 0), DecoderSequenceNum = 0, BadSeekLocations = {}, PreRoll = 0,
      LinearMode = False\<rparr>"

definition pulldown_index :: VideoTrackIndex where
  "pulldown_index = \<lparr>Frames = [rff_record 1 True, rff_record 1 False], LastFrameDuration = 1\<rparr>"

definition single_index :: VideoTrackIndex where
  "single_index = \<lparr>Frames = [rff_record 0 True], LastFrameDuration = 1\<rparr>"

lemma pulldown_counts:
  "VP_NumFrames (idle_engine pulldown_index) = 2" "VP_NumRFFFrames (idle_engine pulldown_index) = 3"
  by (simp_all add: VP_NumFrames_def VP_NumRFFFrames_def NumRFFFrames_of_def NumFields_def
      idle_engine_def pulldown_index_def rff_record_def cdiv_def)

lemma single_counts:
  "VP_NumFrames (idle_engine single_index) = 1" "VP_NumRFFFrames (idle_engine single_index) = 1"
  by (simp_all add: VP_NumFrames_def VP_NumRFFFrames_def NumRFFFrames_of_def NumFields_def
      idle_engine_def single_index_def rff_record_def cdiv_def)

lemma pulldown_table:
  "InitializeRFF (idle_engine pulldown_index) =
     Inr ((idle_engine pulldown_index)\<lparr>RFFFields := [(0, 0), (0, 1), (1, 1)]\<rparr>, 3, 3)"
proof -
  have r: "resize [] 3 = [(0, 0), (0, 0), (0, 0)]"
    by (simp add: resize_def numeral_3_eq_3)
  have w: "walk_frames (Frames pulldown_index) 0 ([(0, 0), (0, 0), (0, 0)], 0, 0) =
      Inr ([(0, 0), (0, 1), (1, 1)], 3, 3)"
    by (simp add: pulldown_index_def rff_record_def numeral_3_eq_3)
  from r w show ?thesis
    by (simp add: InitializeRFF_def pulldown_counts) (simp add: idle_engine_def)
qed

text \<open>
  With the 3:2 pulldown pattern (field parity alternating from frame to frame) the table is
  built and \<open>GetFrameIsTFF\<close> reads it.
\<close>

lemma GetFrameIsTFF_pulldown:
  "GetFrameIsTFF 1 True (idle_engine pulldown_index) =
     Inr (True, (idle_engine pulldown_index)\<lparr>RFFFields := [(0, 0), (0, 1), (1, 1)]\<rparr>) \<and>
   GetFrameIsTFF 2 True (idle_engine pulldown_index) =
     Inr (False, (idle_engine pulldown_index)\<lparr>RFFFields := [(0, 0), (0, 1), (1, 1)]\<rparr>)"
proof -
  have n: "VP_NumFrames ((idle_engine pulldown_index)\<lparr>RFFFields := flds\<rparr>) = 2"
    "VP_NumRFFFrames ((idle_engine pulldown_index)\<lparr>RFFFields := flds\<rparr>) = 3" for flds
    by (simp_all add: VP_NumFrames_def VP_NumRFFFrames_def NumRFFFrames_of_def NumFields_def
        idle_engine_def pulldown_index_def rff_record_def cdiv_def)
  show ?thesis
    by (simp add: GetFrameIsTFF_def RFFState_def pulldown_counts pulldown_table n)
qed

lemma double_tff_counts:
  "VP_NumFrames (idle_engine double_tff_index) = 2" "VP_NumRFFFrames (idle_engine double_tff_index) = 3"
  by (simp_all add: VP_NumFrames_def VP_NumRFFFrames_def NumRFFFrames_of_def NumFields_def
      idle_engine_def double_tff_index_def rff_record_def cdiv_def)

lemma double_tff_walk:
  "walk_frames (Frames double_tff_index) 0 (resize [] 3, 0, 0) = Inl Undefined"
  by (simp add: double_tff_index_def rff_record_def resize_def numeral_3_eq_3)

lemma double_tff_table: "InitializeRFF (idle_engine double_tff_index) = Inl Undefined"
  using double_tff_walk
  by (simp add: InitializeRFF_def double_tff_counts) (simp add: idle_engine_def)

text \<open>
  Claim C10 at the index of two frames that both have \<open>repeat_pict = 1\<close> and
  \<open>top_field_first\<close> set, with the RFF flag. \<open>VP.NumRFFFrames\<close> is 3 and \<open>VP.NumFrames\<close> is 2,
  so RFF is in use and 0, 1 and 2 are in range. \<open>GetFrameIsTFF\<close> calls \<open>InitializeRFF\<close>, which
  writes at \<open>RFFFields[3]\<close>, outside the table of 3 entries, before any value is returned.
\<close>

theorem GetFrameIsTFF_double_tff:
  "VP_NumRFFFrames (idle_engine double_tff_index) = 3 \<and>
   RFFState (idle_engine double_tff_index) = rffUninitialized \<and>
   InitializeRFF (idle_engine double_tff_index) = Inl Undefined \<and>
   GetFrameIsTFF 0 True (idle_engine double_tff_index) = Inl Undefined \<and>
   GetFrameIsTFF 1 True (idle_engine double_tff_index) = Inl Undefined \<and>
   GetFrameIsTFF 2 True (idle_engine double_tff_index) = Inl Undefined"
  by (simp add: GetFrameIsTFF_def RFFState_def double_tff_counts double_tff_table)

text \<open>
  At this input the call takes the branch that reads the RFF table: the guard
  \<open>RFF && RFFState == rffUninitialized\<close> of line 1360 holds and the guard
  \<open>!RFF || RFFState == rffUnused\<close> of line 1363 does not.
\<close>

theorem GetFrameIsTFF_double_tff_witness:
  "(True \<and> RFFState (idle_engine double_tff_index) = rffUninitialized) \<and>
   \<not> (\<not> True \<or> RFFState (idle_engine double_tff_index) = rffUnused) \<and>
   GetFrameIsTFF 1 True (idle_engine double_tff_index) = Inl Undefined"
  using GetFrameIsTFF_double_tff by simp


section \<open>Random access\<close>

text \<open>
  The declarations of \<open>SeekAndDecode\<close> and \<open>GetFrameLinearInternal\<close> with their default
  arguments are in the missing header. The source calls \<open>GetFrameLinearInternal(N)\<close>,
  \<open>GetFrameLinearInternal(N, SeekFrame)\<close> and \<open>SeekAndDecode(N, SeekFrame, Decoder)\<close>, so
  \<open>SeekFrame\<close>, \<open>Depth\<close> and \<open>ForceUnseeked\<close> have defaults; the values below are the ones the
  explicit call \<open>GetFrameLinearInternal(N, -1, 0, true)\<close> (line 1178) writes out for the first
  two, and \<open>assert(SeekFrame >= 0)\<close> (line 1164) treats a negative \<open>SeekFrame\<close> as "none".
\<close>

definition Default_SeekFrame :: int where
  "Default_SeekFrame = - 1"

definition Default_Depth :: nat where
  "Default_Depth = 0"

definition Default_ForceUnseeked :: bool where
  "Default_ForceUnseeked = False"

text \<open>Assignment to \<open>Decoders[i]\<close>; \<open>None\<close> is \<open>reset()\<close>.\<close>

definition set_decoder :: "nat \<Rightarrow> LWVideoDecoder option \<Rightarrow> BestVideoSource \<Rightarrow> BestVideoSource" where
  "set_decoder i d s = s\<lparr>Decoders := (Decoders s)(i := d)\<rparr>"

definition SetLinearMode :: "BestVideoSource \<Rightarrow> BestVideoSource" where
  "SetLinearMode s =
     (if \<not> LinearMode s
      then s\<lparr>LinearMode := True, FrameCache := Clear (FrameCache s),
             Decoders := (\<lambda>i. if i < MaxVideoSources then None else Decoders s i)\<rparr>
      else s)"

text \<open>
  \<open>GetSeekFrame\<close>: the loop \<open>for (i = N - PreRoll; i >= 100; i--)\<close>. \<open>None\<close> is a read of
  \<open>TrackIndex.Frames[i]\<close> past the end of the vector.
\<close>

function GetSeekFrame_loop :: "FrameInfo list \<Rightarrow> int set \<Rightarrow> int \<Rightarrow> int option" where
  "GetSeekFrame_loop frs bad i =
     (if 100 \<le> i
      then (if length frs \<le> nat i then None
            else if KeyFrame (frs ! nat i) \<and> PTS (frs ! nat i) \<noteq> AV_NOPTS_VALUE \<and> i \<notin> bad
            then Some i
            else GetSeekFrame_loop frs bad (i - 1))
      else Some (- 1))"
  by pat_completeness auto
termination
  by (relation "measure (\<lambda>(frs, bad, i). nat (i - 99))") auto

declare GetSeekFrame_loop.simps [simp del]

definition GetSeekFrame :: "BestVideoSource \<Rightarrow> int \<Rightarrow> int option" where
  "GetSeekFrame s N =
     GetSeekFrame_loop (Frames (TrackIndex s)) (BadSeekLocations s) (N - int (PreRoll s))"

text \<open>
  \<open>FrameHolder\<close>: the frames decoded after a seek, each with its hash. \<open>HashMatch\<close> is the inner
  loop over \<open>j\<close> for one candidate position \<open>i\<close>.
\<close>

type_synonym FrameHolder = "(AVFrame \<times> 64 word) list"

definition HashMatch :: "FrameInfo list \<Rightarrow> FrameHolder \<Rightarrow> nat \<Rightarrow> bool" where
  "HashMatch frs MatchFrames i =
     list_all (\<lambda>j. snd (MatchFrames ! j) = Hash (frs ! (i + j))) [0..<length MatchFrames]"

text \<open>
  How the \<open>while (true)\<close> loop of \<open>SeekAndDecode\<close> ends:
  \<^item> \<open>NoFrame\<close>: no frame could be decoded after the seek;
  \<^item> \<open>Unusable\<close>: no suitable candidate, or the location cannot be determined;
  \<^item> \<open>Matched MatchedN MatchFrames\<close>: exactly one match;
  \<^item> \<open>Overrun\<close>: more frames were decoded than the index holds, so that
    \<open>TrackIndex.Frames.size() - MatchFrames.size()\<close> wraps around and the index is read out
    of range.
  \<open>find_matches\<close> computes the set \<open>Matches\<close> (\<open>got\<close> says that a frame was decoded), \<open>judge\<close>
  is the decision after it, and \<open>SeekAndDecode_iter\<close> one round of the loop.
\<close>

datatype SeekVerdict =
  NoFrame
| Unusable
| Matched nat FrameHolder
| Overrun

datatype Iter = Again FrameHolder | Stop SeekVerdict

definition find_matches :: "FrameInfo list \<Rightarrow> FrameHolder \<Rightarrow> bool \<Rightarrow> nat list" where
  "find_matches frs MatchFrames got =
     (if got
      then filter (HashMatch frs MatchFrames) [0..<length frs - length MatchFrames + 1]
      else filter (HashMatch frs MatchFrames)
             [length frs - length MatchFrames..<length frs - length MatchFrames + 1])"

definition judge :: "int \<Rightarrow> bool \<Rightarrow> FrameHolder \<Rightarrow> nat list \<Rightarrow> Iter" where
  "judge N got MatchFrames Matches =
     (let SuitableCandidate = list_ex (\<lambda>i. int i \<le> N) Matches;
          UndeterminableLocation = (1 < length Matches \<and> (\<not> got \<or> 10 \<le> length MatchFrames))
      in if \<not> SuitableCandidate \<or> UndeterminableLocation then Stop Unusable
         else if length Matches = 1 then Stop (Matched (hd Matches) MatchFrames)
         else Again MatchFrames)"

definition SeekAndDecode_iter ::
  "Media \<Rightarrow> FrameInfo list \<Rightarrow> int \<Rightarrow> FrameHolder \<Rightarrow> LWVideoDecoder \<Rightarrow> Iter \<times> LWVideoDecoder" where
  "SeekAndDecode_iter m frs N MatchFrames d =
     (case GetNextFrame d of
        (None, d') \<Rightarrow>
          if MatchFrames = [] then (Stop NoFrame, d')
          else if length frs < length MatchFrames then (Stop Overrun, d')
          else (judge N False MatchFrames (find_matches frs MatchFrames False), d')
      | (Some F, d') \<Rightarrow>
          (let MatchFrames' = MatchFrames @ [(F, GetHash m F)]
           in if length frs < length MatchFrames' then (Stop Overrun, d')
              else (judge N True MatchFrames' (find_matches frs MatchFrames' True), d')))"

lemma find_matches_eof: "length (find_matches frs mf False) \<le> 1"
  by (simp add: find_matches_def)

lemma judge_Again:
  assumes "judge N got mf Matches = Again mf'"
  shows "mf' = mf \<and> 1 < length Matches \<and> got \<and> length mf < 10"
proof -
  from assms have ne: "Matches \<noteq> []"
    by (auto simp: judge_def Let_def split: if_splits)
  with assms show ?thesis
    by (cases Matches) (auto simp: judge_def Let_def split: if_splits)
qed

lemma SeekAndDecode_iter_grows:
  assumes "SeekAndDecode_iter m frs N mf d = (Again mf', d')"
  shows "length mf < length mf' \<and> length mf' < 10"
proof (cases "GetNextFrame d")
  case (Pair F d1)
  show ?thesis
  proof (cases F)
    case None
    with Pair assms have "judge N False mf (find_matches frs mf False) = Again mf'"
      by (auto simp: SeekAndDecode_iter_def split: if_splits)
    then show ?thesis by (auto dest: judge_Again)
  next
    case (Some f)
    with Pair assms have "judge N True (mf @ [(f, GetHash m f)]) (find_matches frs (mf @ [(f, GetHash m f)]) True) = Again mf'"
      by (auto simp: SeekAndDecode_iter_def Let_def split: if_splits)
    then have "mf' = mf @ [(f, GetHash m f)] \<and> length (mf @ [(f, GetHash m f)]) < 10"
      by (auto dest: judge_Again)
    then show ?thesis by simp
  qed
qed

lemma SeekAndDecode_iter_Again:
  assumes "(Again mf', d') = SeekAndDecode_iter m frs N mf d"
  shows "10 - length mf' < 10 - length mf"
proof -
  from assms have "SeekAndDecode_iter m frs N mf d = (Again mf', d')" by (rule sym)
  then have "length mf < length mf' \<and> length mf' < 10" by (rule SeekAndDecode_iter_grows)
  then show ?thesis by arith
qed

function SeekAndDecode_loop ::
  "Media \<Rightarrow> FrameInfo list \<Rightarrow> int \<Rightarrow> FrameHolder \<Rightarrow> LWVideoDecoder \<Rightarrow> SeekVerdict \<times> LWVideoDecoder" where
  "SeekAndDecode_loop m frs N MatchFrames d =
     (case SeekAndDecode_iter m frs N MatchFrames d of
        (Stop v, d') \<Rightarrow> (v, d')
      | (Again MatchFrames', d') \<Rightarrow> SeekAndDecode_loop m frs N MatchFrames' d')"
  by pat_completeness auto


termination
  apply (relation "measure (\<lambda>(m, frs, N, mf, d). 10 - length mf)")
   apply simp
  apply (simp only: in_measure prod.case)
  apply (erule SeekAndDecode_iter_Again)
  done


declare SeekAndDecode_loop.simps [simp del]


text \<open>
  \<open>SeekAndDecode\<close> and \<open>GetFrameLinearInternal\<close> call each other, always as the last action
  (\<open>return SeekAndDecode(...)\<close>, \<open>return GetFrameLinearInternal(...)\<close>). A \<open>Call\<close> is one of
  the two with its arguments (the \<open>Decoder\<close> reference is the slot number), and the body of
  each function yields a \<open>Step\<close>: the value it returns, the call it ends with, or \<open>Stuck\<close>
  for an undefined access.
\<close>

datatype Call =
  SeekAndDecode_call int int nat nat
| GetFrameLinearInternal_call int int nat bool

datatype Step =
  Return "AVFrame option" BestVideoSource
| TailCall Call BestVideoSource
| Stuck

text \<open>
  The text that the source repeats after each failed seek (lines 968 to 983, 1027 to 1043
  and 1165 to 1179): blacklist the seek frame, then retry from an earlier key frame, or
  decode linearly after destroying the decoder, or force linear mode. \<open>forced\<close> is the call
  made after \<open>SetLinearMode\<close>.
\<close>

definition retry_seek :: "int \<Rightarrow> int \<Rightarrow> nat \<Rightarrow> nat \<Rightarrow> Call \<Rightarrow> BestVideoSource \<Rightarrow> Step" where
  "retry_seek N SeekFrame slot Depth forced s =
     (let s1 = s\<lparr>BadSeekLocations := insert SeekFrame (BadSeekLocations s)\<rparr>
      in if Depth < RetrySeekAttempts
         then (case GetSeekFrame s1 (SeekFrame - 100) of
                 None \<Rightarrow> Stuck
               | Some SeekFrameNext \<Rightarrow>
                   if SeekFrameNext < 100
                   then TailCall (GetFrameLinearInternal_call N Default_SeekFrame Default_Depth
                                    Default_ForceUnseeked)
                          (set_decoder slot None s1)
                   else TailCall (SeekAndDecode_call N SeekFrameNext slot (Depth + 1)) s1)
         else TailCall forced (SetLinearMode s1))"

text \<open>
  The loop over \<open>FramesIdx\<close> that caches the matched frames from \<open>N - PreRoll\<close> on and
  picks the requested one.
\<close>

fun cache_matched ::
  "int \<Rightarrow> int \<Rightarrow> int \<Rightarrow> FrameHolder \<Rightarrow> Cache \<times> AVFrame option \<Rightarrow> Cache \<times> AVFrame option" where
  "cache_matched N lo FrameNo [] acc = acc"
| "cache_matched N lo FrameNo ((F, h) # rest) (c, RetFrame) =
     cache_matched N lo (FrameNo + 1) rest
       (if lo \<le> FrameNo
        then (CacheFrame FrameNo F c, if FrameNo = N then Some F else RetFrame)
        else (c, RetFrame))"

definition SeekAndDecode_body ::
  "Media \<Rightarrow> int \<Rightarrow> int \<Rightarrow> nat \<Rightarrow> nat \<Rightarrow> BestVideoSource \<Rightarrow> Step" where
  "SeekAndDecode_body m N SeekFrame slot Depth s =
     (case Decoders s slot of
        None \<Rightarrow> Stuck
      | Some d \<Rightarrow>
          if SeekFrame < 0 \<or> length (Frames (TrackIndex s)) \<le> nat SeekFrame then Stuck
          else
            (case Seek m (PTS (Frames (TrackIndex s) ! nat SeekFrame)) d of
               (False, d1) \<Rightarrow>
                 TailCall (GetFrameLinearInternal_call N Default_SeekFrame Default_Depth
                             Default_ForceUnseeked)
                   (SetLinearMode (set_decoder slot (Some d1) s))
             | (True, d1) \<Rightarrow>
                 (case SeekAndDecode_loop m (Frames (TrackIndex s)) N [] d1 of
                    (Overrun, d2) \<Rightarrow> Stuck
                  | (NoFrame, d2) \<Rightarrow>
                      retry_seek N SeekFrame slot Depth
                        (GetFrameLinearInternal_call N Default_SeekFrame Default_Depth
                           Default_ForceUnseeked)
                        (set_decoder slot (Some d2) s)
                  | (Unusable, d2) \<Rightarrow>
                      retry_seek N SeekFrame slot Depth
                        (GetFrameLinearInternal_call N Default_SeekFrame Default_Depth
                           Default_ForceUnseeked)
                        (set_decoder slot (Some d2) s)
                  | (Matched MatchedN MatchFrames, d2) \<Rightarrow>
                      (let d3 = d2\<lparr>CurrentFrame := int MatchedN + int (length MatchFrames)\<rparr>;
                           s1 = set_decoder slot (Some d3) s;
                           cached = cache_matched N (N - int (PreRoll s1)) (int MatchedN) MatchFrames
                                      (FrameCache s1, None);
                           s2 = s1\<lparr>FrameCache := fst cached\<rparr>
                       in (case snd cached of
                             Some RetFrame \<Rightarrow> Return (Some RetFrame) s2
                           | None \<Rightarrow>
                               TailCall (GetFrameLinearInternal_call N SeekFrame Default_Depth
                                           Default_ForceUnseeked) s2)))))"

text \<open>
  The loop over the decoder slots at the start of \<open>GetFrameLinearInternal\<close>, with the
  variables \<open>Index\<close>, \<open>EmptySlot\<close> (\<open>None\<close> for \<open>-1\<close>) and \<open>LeastRecentlyUsed\<close>. \<open>Index\<close> is
  only ever set to an occupied slot, so \<open>FrameNumber_at\<close> reads an existing decoder.
\<close>

definition FrameNumber_at :: "BestVideoSource \<Rightarrow> nat \<Rightarrow> int" where
  "FrameNumber_at s i = (case Decoders s i of Some d \<Rightarrow> CurrentFrame d | None \<Rightarrow> 0)"

definition scan_slot ::
  "bool \<Rightarrow> int \<Rightarrow> BestVideoSource \<Rightarrow> nat \<Rightarrow> nat option \<times> nat option \<times> nat
     \<Rightarrow> nat option \<times> nat option \<times> nat" where
  "scan_slot ForceUnseeked N s i acc =
     (case acc of (Index, EmptySlot, LeastRecentlyUsed) \<Rightarrow>
        (case Decoders s i of
           None \<Rightarrow> (Index, Some i, LeastRecentlyUsed)
         | Some d \<Rightarrow>
             (if (\<not> ForceUnseeked \<or> \<not> Seeked d) \<and> CurrentFrame d \<le> N \<and>
                 (case Index of None \<Rightarrow> True | Some j \<Rightarrow> FrameNumber_at s j < CurrentFrame d)
              then Some i else Index,
              EmptySlot,
              if DecoderLastUse s i < DecoderLastUse s LeastRecentlyUsed then i
              else LeastRecentlyUsed)))"

definition scan_slots :: "bool \<Rightarrow> int \<Rightarrow> BestVideoSource \<Rightarrow> nat option \<times> nat option \<times> nat" where
  "scan_slots ForceUnseeked N s =
     fold (scan_slot ForceUnseeked N s) [0..<MaxVideoSources] (None, None, 0)"

definition touch_decoder :: "nat \<Rightarrow> BestVideoSource \<Rightarrow> BestVideoSource" where
  "touch_decoder i s =
     s\<lparr>DecoderLastUse := (DecoderLastUse s)(i := DecoderSequenceNum s),
       DecoderSequenceNum := DecoderSequenceNum s + 1\<rparr>"

text \<open>
  One round of the \<open>while\<close> loop of \<open>GetFrameLinearInternal\<close>, entered with the decoder
  \<open>d\<close> of the slot: it either goes on with a new engine state and \<open>RetFrame\<close>, or leaves
  the function.
\<close>

datatype LinearIter = Continue BestVideoSource "AVFrame option" | Exit Step

definition drop_finished :: "nat \<Rightarrow> BestVideoSource \<Rightarrow> BestVideoSource" where
  "drop_finished slot s =
     (case Decoders s slot of
        Some d \<Rightarrow> if \<not> DecodeSuccess d then set_decoder slot None s else s
      | None \<Rightarrow> s)"

definition bad_linear_frame ::
  "int \<Rightarrow> int \<Rightarrow> nat \<Rightarrow> nat \<Rightarrow> LWVideoDecoder \<Rightarrow> BestVideoSource \<Rightarrow> Step" where
  "bad_linear_frame N SeekFrame slot Depth d s =
     (if Seeked d
      then retry_seek N SeekFrame slot Depth (GetFrameLinearInternal_call N (- 1) 0 True) s
      else Return None s)"

definition GetFrameLinearInternal_iter ::
  "Media \<Rightarrow> int \<Rightarrow> int \<Rightarrow> nat \<Rightarrow> nat \<Rightarrow> LWVideoDecoder \<Rightarrow> BestVideoSource \<Rightarrow> AVFrame option
     \<Rightarrow> LinearIter" where
  "GetFrameLinearInternal_iter m N SeekFrame slot Depth d s RetFrame =
     (let FrameNo = CurrentFrame d
      in if N - int (PreRoll s) \<le> FrameNo
         then (case GetNextFrame d of
                 (None, d1) \<Rightarrow>
                   Exit (bad_linear_frame N SeekFrame slot Depth d1 (set_decoder slot (Some d1) s))
               | (Some F, d1) \<Rightarrow>
                   if FrameNo < 0 \<or> length (Frames (TrackIndex s)) \<le> nat FrameNo
                   then Exit Stuck
                   else if Hash (Frames (TrackIndex s) ! nat FrameNo) \<noteq> GetHash m F
                   then Exit (bad_linear_frame N SeekFrame slot Depth d1
                                (set_decoder slot (Some d1) s))
                   else
                     (let s1 = set_decoder slot (Some d1) s;
                          s2 = s1\<lparr>FrameCache := CacheFrame FrameNo F (FrameCache s1)\<rparr>
                      in Continue (drop_finished slot s2)
                           (if FrameNo = N then Some F else RetFrame)))
         else Continue
                (drop_finished slot
                   (set_decoder slot (Some (SkipFrames (N - int (PreRoll s) - FrameNo) d)) s))
                RetFrame)"

definition linear_budget :: "nat \<Rightarrow> BestVideoSource \<Rightarrow> nat" where
  "linear_budget slot s =
     (case Decoders s slot of
        Some d \<Rightarrow> if DecodeSuccess d then Suc (length (pending d)) else 0
      | None \<Rightarrow> 0)"


text \<open>What a decoder can still deliver bounds the rounds of the loop.\<close>

definition decoder_budget :: "LWVideoDecoder \<Rightarrow> nat" where
  "decoder_budget d = (if DecodeSuccess d then Suc (length (pending d)) else 0)"

lemma linear_budget_Some: "Decoders s slot = Some d \<Longrightarrow> linear_budget slot s = decoder_budget d"
  by (simp add: linear_budget_def decoder_budget_def)

lemma linear_budget_set_decoder [simp]:
  "linear_budget slot (set_decoder slot (Some d) s) = decoder_budget d"
  by (simp add: linear_budget_def decoder_budget_def set_decoder_def)

lemma linear_budget_FrameCache [simp]:
  "linear_budget slot (s\<lparr>FrameCache := c\<rparr>) = linear_budget slot s"
  by (simp add: linear_budget_def)

lemma linear_budget_drop_finished [simp]:
  "linear_budget slot (drop_finished slot s) = linear_budget slot s"
  by (auto simp: linear_budget_def drop_finished_def set_decoder_def split: option.splits)

lemma SkipFrames_loop_budget: "decoder_budget (SkipFrames_loop k d) \<le> decoder_budget d"
proof (induction k arbitrary: d)
  case 0
  then show ?case by simp
next
  case (Suc k)
  show ?case
  proof (cases "DecodeSuccess d")
    case False
    then show ?thesis by simp
  next
    case True
    show ?thesis
    proof (cases "pending d")
      case Nil
      let ?d' = "d\<lparr>DecodeSuccess := False\<rparr>"
      have "decoder_budget (SkipFrames_loop k ?d') \<le> decoder_budget ?d'" by (rule Suc.IH)
      with True Nil show ?thesis by (simp add: DecodeNextFrame_def decoder_budget_def)
    next
      case (Cons f fs)
      let ?d' = "d\<lparr>pending := fs, DecodeSuccess := True, CurrentFrame := CurrentFrame d + 1\<rparr>"
      have "decoder_budget (SkipFrames_loop k ?d') \<le> decoder_budget ?d'" by (rule Suc.IH)
      with True Cons show ?thesis by (simp add: DecodeNextFrame_def decoder_budget_def)
    qed
  qed
qed

lemma SkipFrames_budget:
  assumes "DecodeSuccess d" and "0 < Count"
  shows "decoder_budget (SkipFrames Count d) < decoder_budget d"
proof -
  from assms(2) obtain k where k: "nat Count = Suc k" by (cases "nat Count") auto
  show ?thesis
  proof (cases "pending d")
    case Nil
    let ?d' = "d\<lparr>DecodeSuccess := False\<rparr>"
    have "decoder_budget (SkipFrames_loop k ?d') \<le> decoder_budget ?d'" by (rule SkipFrames_loop_budget)
    with assms(1) Nil k show ?thesis
      by (simp add: SkipFrames_def DecodeNextFrame_def decoder_budget_def)
  next
    case (Cons f fs)
    let ?d' = "d\<lparr>pending := fs, DecodeSuccess := True, CurrentFrame := CurrentFrame d + 1\<rparr>"
    have "decoder_budget (SkipFrames_loop k ?d') \<le> decoder_budget ?d'" by (rule SkipFrames_loop_budget)
    with assms(1) Cons k show ?thesis
      by (simp add: SkipFrames_def DecodeNextFrame_def decoder_budget_def)
  qed
qed

lemma GetNextFrame_Some_budget:
  "GetNextFrame d = (Some F, d1) \<Longrightarrow> decoder_budget d1 < decoder_budget d"
  by (auto simp: GetNextFrame_def DecodeNextFrame_def decoder_budget_def split: if_splits list.splits)

lemma GetFrameLinearInternal_iter_budget:
  assumes "GetFrameLinearInternal_iter m N SeekFrame slot Depth d s RetFrame = Continue s' r'"
    and "Decoders s slot = Some d" and "DecodeSuccess d"
  shows "linear_budget slot s' < linear_budget slot s"
proof (cases "N - int (PreRoll s) \<le> CurrentFrame d")
  case True
  obtain F1 d1 where g: "GetNextFrame d = (F1, d1)" by (cases "GetNextFrame d")
  with True assms(1) obtain F where F: "F1 = Some F"
    by (cases F1) (auto simp: GetFrameLinearInternal_iter_def Let_def)
  with g have "decoder_budget d1 < decoder_budget d" by (simp add: GetNextFrame_Some_budget)
  moreover from True g F assms(1)
  have "s' = drop_finished slot
          ((set_decoder slot (Some d1) s)\<lparr>FrameCache :=
             CacheFrame (CurrentFrame d) F (FrameCache (set_decoder slot (Some d1) s))\<rparr>)"
    by (auto simp: GetFrameLinearInternal_iter_def Let_def split: if_splits)
  ultimately show ?thesis using assms(2) by (simp add: linear_budget_Some)
next
  case False
  with assms(1) have "s' = drop_finished slot
      (set_decoder slot (Some (SkipFrames (N - int (PreRoll s) - CurrentFrame d) d)) s)"
    by (simp add: GetFrameLinearInternal_iter_def Let_def)
  moreover from False assms(3)
  have "decoder_budget (SkipFrames (N - int (PreRoll s) - CurrentFrame d) d) < decoder_budget d"
    by (intro SkipFrames_budget) simp_all
  ultimately show ?thesis using assms(2) by (simp add: linear_budget_Some)
qed

function GetFrameLinearInternal_loop ::
  "Media \<Rightarrow> int \<Rightarrow> int \<Rightarrow> nat \<Rightarrow> nat \<Rightarrow> BestVideoSource \<Rightarrow> AVFrame option \<Rightarrow> Step" where
  "GetFrameLinearInternal_loop m N SeekFrame slot Depth s RetFrame =
     (case Decoders s slot of
        None \<Rightarrow> Return RetFrame s
      | Some d \<Rightarrow>
          if CurrentFrame d \<le> N \<and> DecodeSuccess d
          then (case GetFrameLinearInternal_iter m N SeekFrame slot Depth d s RetFrame of
                  Continue s' RetFrame' \<Rightarrow>
                    GetFrameLinearInternal_loop m N SeekFrame slot Depth s' RetFrame'
                | Exit st \<Rightarrow> st)
          else Return RetFrame s)"
  by pat_completeness auto
termination
  apply (relation "measure (\<lambda>(m, N, SeekFrame, slot, Depth, s, RetFrame). linear_budget slot s)")
   apply simp
  apply (simp only: in_measure prod.case)
  apply (erule conjE)
  apply (rule GetFrameLinearInternal_iter_budget; assumption)
  done

declare GetFrameLinearInternal_loop.simps [simp del]

definition GetFrameLinearInternal_body ::
  "Media \<Rightarrow> int \<Rightarrow> int \<Rightarrow> nat \<Rightarrow> bool \<Rightarrow> BestVideoSource \<Rightarrow> Step" where
  "GetFrameLinearInternal_body m N SeekFrame Depth ForceUnseeked s =
     (case scan_slots ForceUnseeked N s of (Index, EmptySlot, LeastRecentlyUsed) \<Rightarrow>
        (case Index of
           Some slot \<Rightarrow>
             GetFrameLinearInternal_loop m N SeekFrame slot Depth (touch_decoder slot s) None
         | None \<Rightarrow>
             (let slot = (case EmptySlot of Some e \<Rightarrow> e | None \<Rightarrow> LeastRecentlyUsed)
              in GetFrameLinearInternal_loop m N SeekFrame slot Depth
                   (touch_decoder slot (set_decoder slot (Some (LWVideoDecoder_new m)) s)) None)))"

fun step :: "Media \<Rightarrow> Call \<Rightarrow> BestVideoSource \<Rightarrow> Step" where
  "step m (SeekAndDecode_call N SeekFrame slot Depth) s = SeekAndDecode_body m N SeekFrame slot Depth s"
| "step m (GetFrameLinearInternal_call N SeekFrame Depth ForceUnseeked) s =
     GetFrameLinearInternal_body m N SeekFrame Depth ForceUnseeked s"


section \<open>Termination of the seek and verify procedure\<close>

text \<open>
  The two functions end: along every call the seek frame does not grow, and when it stays
  the same the number of occupied decoder slots drops, or stays with a smaller rank of
  the call.
\<close>

definition vacant :: "BestVideoSource \<Rightarrow> nat \<Rightarrow> bool" where
  "vacant s i \<longleftrightarrow> Decoders s i = None"

definition decoder_count :: "BestVideoSource \<Rightarrow> nat" where
  "decoder_count s = card {i. i < MaxVideoSources \<and> \<not> vacant s i}"

lemma decoder_count_same:
  "(\<And>i. i < MaxVideoSources \<Longrightarrow> vacant s' i = vacant s i) \<Longrightarrow> decoder_count s' = decoder_count s"
  unfolding decoder_count_def by (rule arg_cong [where f = card]) auto

lemma decoder_count_mono:
  assumes "\<And>i. i < MaxVideoSources \<Longrightarrow> vacant s i \<Longrightarrow> vacant s' i"
  shows "decoder_count s' \<le> decoder_count s"
  unfolding decoder_count_def by (rule card_mono) (use assms in auto)

lemma decoder_count_less:
  assumes "\<And>i. i < MaxVideoSources \<Longrightarrow> vacant s i \<Longrightarrow> vacant s' i"
    and "slot < MaxVideoSources" and "\<not> vacant s slot" and "vacant s' slot"
  shows "decoder_count s' < decoder_count s"
  unfolding decoder_count_def
proof (rule psubset_card_mono)
  show "finite {i. i < MaxVideoSources \<and> \<not> vacant s i}" by simp
  show "{i. i < MaxVideoSources \<and> \<not> vacant s' i} \<subset> {i. i < MaxVideoSources \<and> \<not> vacant s i}"
    using assms by auto
qed

lemma GetSeekFrame_loop_range:
  "GetSeekFrame_loop frs bad i = Some r \<Longrightarrow> r = - 1 \<or> (100 \<le> r \<and> r \<le> i)"
proof (induction frs bad i rule: GetSeekFrame_loop.induct)
  case (1 frs bad i)
  show ?case
  proof (cases "100 \<le> i")
    case False
    with "1.prems" show ?thesis by (simp add: GetSeekFrame_loop.simps [of frs bad i])
  next
    case True
    show ?thesis
    proof (cases "length frs \<le> nat i")
      case True
      with \<open>100 \<le> i\<close> "1.prems" show ?thesis by (simp add: GetSeekFrame_loop.simps [of frs bad i])
    next
      case False
      show ?thesis
      proof (cases "KeyFrame (frs ! nat i) \<and> PTS (frs ! nat i) \<noteq> AV_NOPTS_VALUE \<and> i \<notin> bad")
        case True
        with \<open>100 \<le> i\<close> \<open>\<not> length frs \<le> nat i\<close> "1.prems" show ?thesis
          by (simp add: GetSeekFrame_loop.simps [of frs bad i])
      next
        case False
        with \<open>100 \<le> i\<close> \<open>\<not> length frs \<le> nat i\<close> "1.prems"
        have "GetSeekFrame_loop frs bad (i - 1) = Some r"
          by (simp add: GetSeekFrame_loop.simps [of frs bad i])
        with "1.IH" \<open>100 \<le> i\<close> \<open>\<not> length frs \<le> nat i\<close> False
        have "r = - 1 \<or> (100 \<le> r \<and> r \<le> i - 1)" by blast
        then show ?thesis by auto
      qed
    qed
  qed
qed

lemma GetSeekFrame_range:
  "GetSeekFrame s N = Some r \<Longrightarrow> r = - 1 \<or> (100 \<le> r \<and> r \<le> N)"
  by (auto simp: GetSeekFrame_def dest!: GetSeekFrame_loop_range)

lemma SetLinearMode_decoders:
  "i < MaxVideoSources \<Longrightarrow> vacant s i \<Longrightarrow> vacant (SetLinearMode s) i"
  by (simp add: SetLinearMode_def vacant_def)

lemma retry_seek_edge:
  assumes "retry_seek N SeekFrame slot Depth forced s = TailCall c' s'"
  shows "(\<exists>SeekFrameNext. c' = SeekAndDecode_call N SeekFrameNext slot (Depth + 1) \<and>
            100 \<le> SeekFrameNext \<and> SeekFrameNext < SeekFrame \<and> Decoders s' = Decoders s) \<or>
         (c' = GetFrameLinearInternal_call N (- 1) 0 False \<and> Decoders s' = (Decoders s)(slot := None)) \<or>
         (c' = forced \<and> (\<forall>i < MaxVideoSources. vacant s i \<longrightarrow> vacant s' i))"
proof (cases "Depth < RetrySeekAttempts")
  case False
  let ?s1 = "s\<lparr>BadSeekLocations := insert SeekFrame (BadSeekLocations s)\<rparr>"
  from False assms have "c' = forced" and "s' = SetLinearMode ?s1"
    by (simp_all add: retry_seek_def Let_def)
  moreover have "\<forall>i < MaxVideoSources. vacant s i \<longrightarrow> vacant (SetLinearMode ?s1) i"
    using SetLinearMode_decoders [of _ ?s1] by (simp add: vacant_def)
  ultimately show ?thesis by simp
next
  case True
  let ?s1 = "s\<lparr>BadSeekLocations := insert SeekFrame (BadSeekLocations s)\<rparr>"
  from True assms obtain r where r: "GetSeekFrame ?s1 (SeekFrame - 100) = Some r"
    by (cases "GetSeekFrame ?s1 (SeekFrame - 100)") (auto simp: retry_seek_def Let_def)
  then have range: "r = - 1 \<or> (100 \<le> r \<and> r \<le> SeekFrame - 100)"
    by (rule GetSeekFrame_range)
  show ?thesis
  proof (cases "r < 100")
    case True
    with \<open>Depth < RetrySeekAttempts\<close> r assms show ?thesis
      by (auto simp: retry_seek_def Let_def set_decoder_def Default_SeekFrame_def Default_Depth_def
          Default_ForceUnseeked_def)
  next
    case False
    with \<open>Depth < RetrySeekAttempts\<close> r assms range show ?thesis
      by (auto simp: retry_seek_def Let_def)
  qed
qed


lemma vacant_set_decoder_Some:
  "\<not> vacant s slot \<Longrightarrow> vacant (set_decoder slot (Some d) s) i = vacant s i"
  by (simp add: vacant_def set_decoder_def)

lemma vacant_BadSeekLocations [simp]: "vacant (s\<lparr>BadSeekLocations := b\<rparr>) i = vacant s i"
  by (simp add: vacant_def)

lemma vacant_FrameCache [simp]: "vacant (s\<lparr>FrameCache := c\<rparr>) i = vacant s i"
  by (simp add: vacant_def)

lemma vacant_touch_decoder [simp]: "vacant (touch_decoder j s) i = vacant s i"
  by (simp add: vacant_def touch_decoder_def)

lemma vacant_Decoders_eq: "Decoders s' = Decoders s \<Longrightarrow> vacant s' i = vacant s i"
  by (simp add: vacant_def)

lemma retry_seek_count:
  assumes "retry_seek N SeekFrame slot Depth forced s = TailCall c' s'"
  shows "decoder_count s' \<le> decoder_count s"
proof -
  from retry_seek_edge [OF assms]
  have "\<And>i. i < MaxVideoSources \<Longrightarrow> vacant s i \<Longrightarrow> vacant s' i"
    by (auto simp: vacant_def)
  then show ?thesis by (rule decoder_count_mono)
qed

lemma SeekAndDecode_body_edge:
  assumes "SeekAndDecode_body m N SeekFrame slot Depth s = TailCall c' s'"
  shows "0 \<le> SeekFrame \<and> decoder_count s' \<le> decoder_count s \<and>
         ((\<exists>SeekFrameNext D'. c' = SeekAndDecode_call N SeekFrameNext slot D' \<and>
              100 \<le> SeekFrameNext \<and> SeekFrameNext < SeekFrame) \<or>
          c' = GetFrameLinearInternal_call N (- 1) 0 False \<or>
          c' = GetFrameLinearInternal_call N SeekFrame 0 False)"
proof -
  from assms obtain d where d: "Decoders s slot = Some d"
    by (cases "Decoders s slot") (simp_all add: SeekAndDecode_body_def)
  then have occ: "\<not> vacant s slot" by (simp add: vacant_def)
  from assms d have inr: "\<not> (SeekFrame < 0 \<or> length (Frames (TrackIndex s)) \<le> nat SeekFrame)"
    by (auto simp: SeekAndDecode_body_def split: if_splits)
  then have nonneg: "0 \<le> SeekFrame" by simp
  obtain ok d1 where sk: "Seek m (PTS (Frames (TrackIndex s) ! nat SeekFrame)) d = (ok, d1)"
    by (cases "Seek m (PTS (Frames (TrackIndex s) ! nat SeekFrame)) d")
  show ?thesis
  proof (cases ok)
    case False
    with assms d inr sk have c': "c' = GetFrameLinearInternal_call N (- 1) 0 False"
      and s': "s' = SetLinearMode (set_decoder slot (Some d1) s)"
      by (simp_all add: SeekAndDecode_body_def Default_SeekFrame_def Default_Depth_def
          Default_ForceUnseeked_def)
    have "\<And>i. i < MaxVideoSources \<Longrightarrow> vacant s i \<Longrightarrow> vacant s' i"
      unfolding s' by (rule SetLinearMode_decoders) (simp_all add: vacant_set_decoder_Some [OF occ])
    then have "decoder_count s' \<le> decoder_count s" by (rule decoder_count_mono)
    with nonneg c' show ?thesis by simp
  next
    case True
    obtain v d2 where lp: "SeekAndDecode_loop m (Frames (TrackIndex s)) N [] d1 = (v, d2)"
      by (cases "SeekAndDecode_loop m (Frames (TrackIndex s)) N [] d1")
    let ?forced = "GetFrameLinearInternal_call N Default_SeekFrame Default_Depth Default_ForceUnseeked"
    let ?sr = "set_decoder slot (Some d2) s"
    have same: "decoder_count ?sr = decoder_count s"
      by (rule decoder_count_same) (simp add: vacant_set_decoder_Some [OF occ])
    have retry: ?thesis if r: "retry_seek N SeekFrame slot Depth ?forced ?sr = TailCall c' s'"
    proof -
      from retry_seek_count [OF r] same have "decoder_count s' \<le> decoder_count s" by simp
      moreover from retry_seek_edge [OF r]
      have "(\<exists>SeekFrameNext D'. c' = SeekAndDecode_call N SeekFrameNext slot D' \<and>
              100 \<le> SeekFrameNext \<and> SeekFrameNext < SeekFrame) \<or>
          c' = GetFrameLinearInternal_call N (- 1) 0 False"
        by (auto simp: Default_SeekFrame_def Default_Depth_def Default_ForceUnseeked_def)
      ultimately show ?thesis using nonneg by blast
    qed
    show ?thesis
    proof (cases v)
      case NoFrame
      with assms d inr sk True lp show ?thesis
        by (intro retry) (simp add: SeekAndDecode_body_def)
    next
      case Unusable
      with assms d inr sk True lp show ?thesis
        by (intro retry) (simp add: SeekAndDecode_body_def)
    next
      case Overrun
      with assms d inr sk True lp show ?thesis
        by (simp add: SeekAndDecode_body_def)
    next
      case (Matched MatchedN MatchFrames)
      let ?d3 = "d2\<lparr>CurrentFrame := int MatchedN + int (length MatchFrames)\<rparr>"
      let ?s1 = "set_decoder slot (Some ?d3) s"
      let ?cached = "cache_matched N (N - int (PreRoll ?s1)) (int MatchedN) MatchFrames (FrameCache ?s1, None)"
      from Matched assms d inr sk True lp
      have c': "c' = GetFrameLinearInternal_call N SeekFrame 0 False"
        and s': "s' = ?s1\<lparr>FrameCache := fst ?cached\<rparr>"
        by (auto simp: SeekAndDecode_body_def Let_def Default_Depth_def Default_ForceUnseeked_def
            split: option.splits)
      have "decoder_count s' = decoder_count s"
        unfolding s' by (rule decoder_count_same) (simp add: vacant_set_decoder_Some [OF occ])
      with nonneg c' show ?thesis by simp
    qed
  qed
qed


lemma GetNextFrame_Seeked: "GetNextFrame d = (F, d1) \<Longrightarrow> Seeked d1 = Seeked d"
  by (auto simp: GetNextFrame_def DecodeNextFrame_def split: if_splits list.splits)

lemma SkipFrames_loop_Seeked: "Seeked (SkipFrames_loop k d) = Seeked d"
  by (induction k arbitrary: d) (auto simp: DecodeNextFrame_def split: list.splits)

lemma SkipFrames_Seeked: "Seeked (SkipFrames Count d) = Seeked d"
  by (simp add: SkipFrames_def SkipFrames_loop_Seeked)

lemma drop_finished_slot:
  "Decoders s slot = Some d \<Longrightarrow>
     Decoders (drop_finished slot s) = (Decoders s)(slot := (if DecodeSuccess d then Some d else None))"
  by (auto simp: drop_finished_def set_decoder_def)

lemma GetFrameLinearInternal_iter_Continue:
  assumes "GetFrameLinearInternal_iter m N SeekFrame slot Depth d s RetFrame = Continue s1 r1"
  shows "\<exists>d1. Seeked d1 = Seeked d \<and>
           Decoders s1 = (Decoders s)(slot := (if DecodeSuccess d1 then Some d1 else None))"
proof (cases "N - int (PreRoll s) \<le> CurrentFrame d")
  case True
  obtain F1 d1 where g: "GetNextFrame d = (F1, d1)" by (cases "GetNextFrame d")
  with True assms obtain F where F: "F1 = Some F"
    by (cases F1) (auto simp: GetFrameLinearInternal_iter_def Let_def)
  let ?s2 = "(set_decoder slot (Some d1) s)\<lparr>FrameCache :=
             CacheFrame (CurrentFrame d) F (FrameCache (set_decoder slot (Some d1) s))\<rparr>"
  from True g F assms have s1: "s1 = drop_finished slot ?s2"
    by (auto simp: GetFrameLinearInternal_iter_def Let_def split: if_splits)
  have "Decoders ?s2 slot = Some d1" by (simp add: set_decoder_def)
  from drop_finished_slot [OF this] s1
  have "Decoders s1 = (Decoders s)(slot := (if DecodeSuccess d1 then Some d1 else None))"
    by (simp add: set_decoder_def)
  with GetNextFrame_Seeked [OF g] show ?thesis by blast
next
  case False
  let ?d1 = "SkipFrames (N - int (PreRoll s) - CurrentFrame d) d"
  let ?s2 = "set_decoder slot (Some ?d1) s"
  from False assms have s1: "s1 = drop_finished slot ?s2"
    by (simp add: GetFrameLinearInternal_iter_def Let_def)
  have "Decoders ?s2 slot = Some ?d1" by (simp add: set_decoder_def)
  from drop_finished_slot [OF this] s1
  have "Decoders s1 = (Decoders s)(slot := (if DecodeSuccess ?d1 then Some ?d1 else None))"
    by (simp add: set_decoder_def)
  with SkipFrames_Seeked [of _ d] show ?thesis by blast
qed

lemma GetFrameLinearInternal_iter_Exit:
  assumes "GetFrameLinearInternal_iter m N SeekFrame slot Depth d s RetFrame = Exit (TailCall c' s')"
  shows "Seeked d \<and> (\<exists>d1. retry_seek N SeekFrame slot Depth (GetFrameLinearInternal_call N (- 1) 0 True)
                             (set_decoder slot (Some d1) s) = TailCall c' s')"
proof -
  obtain F1 d1 where g: "GetNextFrame d = (F1, d1)" by (cases "GetNextFrame d")
  from assms g have "bad_linear_frame N SeekFrame slot Depth d1 (set_decoder slot (Some d1) s) = TailCall c' s'"
    by (auto simp: GetFrameLinearInternal_iter_def Let_def split: if_splits option.splits)
  then have "Seeked d1" and "retry_seek N SeekFrame slot Depth (GetFrameLinearInternal_call N (- 1) 0 True)
                             (set_decoder slot (Some d1) s) = TailCall c' s'"
    by (auto simp: bad_linear_frame_def split: if_splits)
  with GetNextFrame_Seeked [OF g] show ?thesis by blast
qed

definition linear_edge :: "int \<Rightarrow> int \<Rightarrow> nat \<Rightarrow> nat \<Rightarrow> BestVideoSource \<Rightarrow> Call \<Rightarrow> BestVideoSource \<Rightarrow> bool" where
  "linear_edge N SeekFrame slot Depth s c' s' \<longleftrightarrow>
     (\<exists>SeekFrameNext. c' = SeekAndDecode_call N SeekFrameNext slot (Depth + 1) \<and>
         100 \<le> SeekFrameNext \<and> SeekFrameNext < SeekFrame \<and> decoder_count s' \<le> decoder_count s) \<or>
     (c' = GetFrameLinearInternal_call N (- 1) 0 False \<and> decoder_count s' < decoder_count s) \<or>
     (c' = GetFrameLinearInternal_call N (- 1) 0 True \<and> decoder_count s' \<le> decoder_count s)"

lemma linear_edge_weaken:
  "linear_edge N SeekFrame slot Depth s1 c' s' \<Longrightarrow> decoder_count s1 \<le> decoder_count s \<Longrightarrow>
     linear_edge N SeekFrame slot Depth s c' s'"
  by (auto simp: linear_edge_def)

lemma GetFrameLinearInternal_loop_edge:
  "GetFrameLinearInternal_loop m N SeekFrame slot Depth s RetFrame = TailCall c' s' \<Longrightarrow>
   slot < MaxVideoSources \<Longrightarrow>
     (\<exists>d. Decoders s slot = Some d \<and> Seeked d) \<and> linear_edge N SeekFrame slot Depth s c' s'"
proof (induction m N SeekFrame slot Depth s RetFrame rule: GetFrameLinearInternal_loop.induct)
  case (1 m N SeekFrame slot Depth s RetFrame)
  from "1.prems"(1) obtain d where d: "Decoders s slot = Some d"
    by (cases "Decoders s slot") (simp_all add: GetFrameLinearInternal_loop.simps [of m N SeekFrame slot Depth s])
  then have occ: "\<not> vacant s slot" by (simp add: vacant_def)
  from "1.prems"(1) d have cond: "CurrentFrame d \<le> N \<and> DecodeSuccess d"
    by (auto simp: GetFrameLinearInternal_loop.simps [of m N SeekFrame slot Depth s] split: if_splits)
  show ?case
  proof (cases "GetFrameLinearInternal_iter m N SeekFrame slot Depth d s RetFrame")
    case (Continue s1 r1)
    with "1.prems"(1) d cond
    have "GetFrameLinearInternal_loop m N SeekFrame slot Depth s1 r1 = TailCall c' s'"
      by (simp add: GetFrameLinearInternal_loop.simps [of m N SeekFrame slot Depth s])
    with "1.IH" [OF d cond Continue] "1.prems"(2)
    have IH: "\<exists>d. Decoders s1 slot = Some d \<and> Seeked d" "linear_edge N SeekFrame slot Depth s1 c' s'"
      by blast+
    from GetFrameLinearInternal_iter_Continue [OF Continue] obtain d1
      where d1: "Seeked d1 = Seeked d"
        "Decoders s1 = (Decoders s)(slot := (if DecodeSuccess d1 then Some d1 else None))"
      by blast
    from IH(1) d1 have "Seeked d" by (auto split: if_splits)
    moreover have "decoder_count s1 \<le> decoder_count s"
      by (rule decoder_count_mono) (use d1(2) d in \<open>auto simp: vacant_def\<close>)
    with IH(2) have "linear_edge N SeekFrame slot Depth s c' s'"
      by (rule linear_edge_weaken)
    ultimately show ?thesis using d by simp
  next
    case (Exit st)
    with "1.prems"(1) d cond have "st = TailCall c' s'"
      by (simp add: GetFrameLinearInternal_loop.simps [of m N SeekFrame slot Depth s])
    with Exit GetFrameLinearInternal_iter_Exit [of m N SeekFrame slot Depth d s RetFrame c' s']
    obtain d1 where sd: "Seeked d"
      and r: "retry_seek N SeekFrame slot Depth (GetFrameLinearInternal_call N (- 1) 0 True)
                (set_decoder slot (Some d1) s) = TailCall c' s'"
      by blast
    let ?sr = "set_decoder slot (Some d1) s"
    have same: "decoder_count ?sr = decoder_count s"
      by (rule decoder_count_same) (simp add: vacant_set_decoder_Some [OF occ])
    from retry_seek_count [OF r] same have le: "decoder_count s' \<le> decoder_count s" by simp
    from retry_seek_edge [OF r]
    consider (seek) SeekFrameNext where "c' = SeekAndDecode_call N SeekFrameNext slot (Depth + 1)"
        "100 \<le> SeekFrameNext" "SeekFrameNext < SeekFrame"
      | (reset) "c' = GetFrameLinearInternal_call N (- 1) 0 False"
          "Decoders s' = (Decoders ?sr)(slot := None)"
      | (forced) "c' = GetFrameLinearInternal_call N (- 1) 0 True"
      by blast
    then have "linear_edge N SeekFrame slot Depth s c' s'"
    proof cases
      case seek
      with le show ?thesis by (auto simp: linear_edge_def)
    next
      case reset
      have "decoder_count s' < decoder_count s"
      proof (rule decoder_count_less [where slot = slot])
        show "slot < MaxVideoSources" by (rule "1.prems"(2))
        show "\<not> vacant s slot" by (rule occ)
        show "vacant s' slot" using reset(2) by (simp add: vacant_def)
        show "vacant s' i" if "i < MaxVideoSources" "vacant s i" for i
          using that reset(2) by (simp add: vacant_def set_decoder_def)
      qed
      with reset(1) show ?thesis by (simp add: linear_edge_def)
    next
      case forced
      with le show ?thesis by (simp add: linear_edge_def)
    qed
    with sd d show ?thesis by simp
  qed
qed


definition scan_ok :: "bool \<Rightarrow> BestVideoSource \<Rightarrow> nat option \<times> nat option \<times> nat \<Rightarrow> bool" where
  "scan_ok ForceUnseeked s acc \<longleftrightarrow>
     (case acc of (Index, EmptySlot, LeastRecentlyUsed) \<Rightarrow>
        (case Index of
           None \<Rightarrow> True
         | Some i \<Rightarrow> i < MaxVideoSources \<and>
             (case Decoders s i of None \<Rightarrow> False | Some d \<Rightarrow> \<not> (ForceUnseeked \<and> Seeked d))) \<and>
        (case EmptySlot of None \<Rightarrow> True | Some e \<Rightarrow> e < MaxVideoSources) \<and>
        LeastRecentlyUsed < MaxVideoSources)"

lemma scan_slot_ok:
  "i < MaxVideoSources \<Longrightarrow> scan_ok ForceUnseeked s acc \<Longrightarrow>
     scan_ok ForceUnseeked s (scan_slot ForceUnseeked N s i acc)"
  by (cases acc) (auto simp: scan_ok_def scan_slot_def split: option.splits)

lemma fold_scan_slot_ok:
  "\<forall>i \<in> set xs. i < MaxVideoSources \<Longrightarrow> scan_ok ForceUnseeked s acc \<Longrightarrow>
     scan_ok ForceUnseeked s (fold (scan_slot ForceUnseeked N s) xs acc)"
  by (induction xs arbitrary: acc) (simp_all add: scan_slot_ok)

lemma scan_slots_ok: "scan_ok ForceUnseeked s (scan_slots ForceUnseeked N s)"
  unfolding scan_slots_def
  by (rule fold_scan_slot_ok) (simp_all add: scan_ok_def MaxVideoSources_def)

lemma GetFrameLinearInternal_body_edge:
  assumes "GetFrameLinearInternal_body m N SeekFrame Depth ForceUnseeked s = TailCall c' s'"
  shows "\<not> ForceUnseeked \<and> (\<exists>slot. linear_edge N SeekFrame slot Depth s c' s')"
proof -
  obtain Index EmptySlot LeastRecentlyUsed
    where sc: "scan_slots ForceUnseeked N s = (Index, EmptySlot, LeastRecentlyUsed)"
    by (cases "scan_slots ForceUnseeked N s")
  with scan_slots_ok [of ForceUnseeked s N]
  have ok: "scan_ok ForceUnseeked s (Index, EmptySlot, LeastRecentlyUsed)" by simp
  show ?thesis
  proof (cases Index)
    case None
    let ?slot = "case EmptySlot of Some e \<Rightarrow> e | None \<Rightarrow> LeastRecentlyUsed"
    let ?s2 = "touch_decoder ?slot (set_decoder ?slot (Some (LWVideoDecoder_new m)) s)"
    from ok have lt: "?slot < MaxVideoSources"
      by (auto simp: scan_ok_def split: option.splits)
    from None sc assms
    have "GetFrameLinearInternal_loop m N SeekFrame ?slot Depth ?s2 None = TailCall c' s'"
      by (simp add: GetFrameLinearInternal_body_def Let_def)
    from GetFrameLinearInternal_loop_edge [OF this lt]
    have "\<exists>d. Decoders ?s2 ?slot = Some d \<and> Seeked d" by blast
    then have False
      by (simp add: touch_decoder_def set_decoder_def LWVideoDecoder_new_def)
    then show ?thesis ..
  next
    case (Some slot)
    let ?s2 = "touch_decoder slot s"
    from ok Some obtain d where lt: "slot < MaxVideoSources" and d: "Decoders s slot = Some d"
      and fu: "\<not> (ForceUnseeked \<and> Seeked d)"
      by (auto simp: scan_ok_def split: option.splits)
    from Some sc assms
    have "GetFrameLinearInternal_loop m N SeekFrame slot Depth ?s2 None = TailCall c' s'"
      by (simp add: GetFrameLinearInternal_body_def)
    from GetFrameLinearInternal_loop_edge [OF this lt]
    have sd: "\<exists>d. Decoders ?s2 slot = Some d \<and> Seeked d"
      and e: "linear_edge N SeekFrame slot Depth ?s2 c' s'" by blast+
    from sd d have "Seeked d" by (simp add: touch_decoder_def)
    with fu have "\<not> ForceUnseeked" by simp
    moreover have "decoder_count ?s2 = decoder_count s"
      by (rule decoder_count_same) simp
    with e have "linear_edge N SeekFrame slot Depth s c' s'"
      by (intro linear_edge_weaken [OF e]) simp
    ultimately show ?thesis by blast
  qed
qed

definition call_rank :: "Call \<Rightarrow> nat \<times> nat" where
  "call_rank c =
     (case c of
        SeekAndDecode_call N SeekFrame slot Depth \<Rightarrow> (nat (SeekFrame + 1), 2)
      | GetFrameLinearInternal_call N SeekFrame Depth ForceUnseeked \<Rightarrow>
          (nat (SeekFrame + 1), if ForceUnseeked then 0 else 1))"

definition call_order :: "((Call \<times> BestVideoSource) \<times> (Call \<times> BestVideoSource)) set" where
  "call_order =
     inv_image (less_than <*lex*> less_than <*lex*> less_than)
       (\<lambda>(c, s). (fst (call_rank c), decoder_count s, snd (call_rank c)))"

lemma wf_call_order: "wf call_order"
  unfolding call_order_def by (intro wf_inv_image wf_lex_prod wf_less_than)

lemma step_decreases:
  assumes "step m c s = TailCall c' s'"
  shows "((c', s'), (c, s)) \<in> call_order"
proof (cases c)
  case (SeekAndDecode_call N SeekFrame slot Depth)
  with assms have "SeekAndDecode_body m N SeekFrame slot Depth s = TailCall c' s'" by simp
  from SeekAndDecode_body_edge [OF this] SeekAndDecode_call show ?thesis
    by (auto simp: call_order_def call_rank_def)
next
  case (GetFrameLinearInternal_call N SeekFrame Depth ForceUnseeked)
  with assms have "GetFrameLinearInternal_body m N SeekFrame Depth ForceUnseeked s = TailCall c' s'"
    by simp
  from GetFrameLinearInternal_body_edge [OF this] GetFrameLinearInternal_call show ?thesis
    by (auto simp: call_order_def call_rank_def linear_edge_def)
qed

text \<open>Running a call to its result.\<close>

function run :: "Media \<Rightarrow> Call \<Rightarrow> BestVideoSource \<Rightarrow> fault + (AVFrame option \<times> BestVideoSource)" where
  "run m c s =
     (case step m c s of
        Return RetFrame s' \<Rightarrow> Inr (RetFrame, s')
      | TailCall c' s' \<Rightarrow> run m c' s'
      | Stuck \<Rightarrow> Inl Undefined)"
  by pat_completeness auto
termination
  apply (relation "inv_image call_order (\<lambda>(m, c, s). (c, s))")
   apply (simp add: wf_call_order)
  apply (simp only: in_inv_image prod.case)
  apply (erule step_decreases)
  done

declare run.simps [simp del]


section \<open>The entry points of random access\<close>

text \<open>
  The two functions as the callers see them: the call is run to its result. \<open>run\<close> is total,
  so each of them returns for every engine state.
\<close>

definition SeekAndDecode ::
  "Media \<Rightarrow> int \<Rightarrow> int \<Rightarrow> nat \<Rightarrow> nat \<Rightarrow> BestVideoSource \<Rightarrow> fault + (AVFrame option \<times> BestVideoSource)" where
  "SeekAndDecode m N SeekFrame slot Depth s = run m (SeekAndDecode_call N SeekFrame slot Depth) s"

definition GetFrameLinearInternal ::
  "Media \<Rightarrow> int \<Rightarrow> int \<Rightarrow> nat \<Rightarrow> bool \<Rightarrow> BestVideoSource \<Rightarrow> fault + (AVFrame option \<times> BestVideoSource)" where
  "GetFrameLinearInternal m N SeekFrame Depth ForceUnseeked s =
     run m (GetFrameLinearInternal_call N SeekFrame Depth ForceUnseeked) s"

text \<open>
  The second loop over the slots in \<open>GetFrameInternal\<close> (lines 1106 to 1113) and the choice
  \<open>Index = (EmptySlot >= 0) ? EmptySlot : LeastRecentlyUsed\<close>.
\<close>

definition seek_slot :: "BestVideoSource \<Rightarrow> nat" where
  "seek_slot s =
     (case fold (\<lambda>i (EmptySlot, LeastRecentlyUsed).
                   (case Decoders s i of
                      None \<Rightarrow> (Some i, LeastRecentlyUsed)
                    | Some d \<Rightarrow>
                        (EmptySlot,
                         if DecoderLastUse s i < DecoderLastUse s LeastRecentlyUsed then i
                         else LeastRecentlyUsed)))
             [0..<MaxVideoSources] (None, 0) of
        (Some EmptySlot, LeastRecentlyUsed) \<Rightarrow> EmptySlot
      | (None, LeastRecentlyUsed) \<Rightarrow> LeastRecentlyUsed)"

text \<open>
  \<open>GetFrameInternal\<close>. \<open>None\<close> from \<open>GetSeekFrame\<close> is a read past the end of the index, which
  does not happen for \<open>N\<close> below \<open>VP.NumFrames\<close>.
\<close>

definition GetFrameInternal ::
  "Media \<Rightarrow> int \<Rightarrow> BestVideoSource \<Rightarrow> fault + (AVFrame option \<times> BestVideoSource)" where
  "GetFrameInternal m N s =
     (if LinearMode s
      then GetFrameLinearInternal m N Default_SeekFrame Default_Depth Default_ForceUnseeked s
      else
        (case GetSeekFrame s N of
           None \<Rightarrow> Inl Undefined
         | Some SeekFrame \<Rightarrow>
             if SeekFrame < 100
             then GetFrameLinearInternal m N Default_SeekFrame Default_Depth Default_ForceUnseeked s
             else if list_ex (\<lambda>i. case Decoders s i of
                                    None \<Rightarrow> False
                                  | Some d \<Rightarrow> CurrentFrame d \<le> N \<and> SeekFrame \<le> CurrentFrame d)
                       [0..<MaxVideoSources]
             then GetFrameLinearInternal m N Default_SeekFrame Default_Depth Default_ForceUnseeked s
             else
               (let Index = seek_slot s;
                    s1 = (case Decoders s Index of
                            None \<Rightarrow> set_decoder Index (Some (LWVideoDecoder_new m)) s
                          | Some d \<Rightarrow> s)
                in SeekAndDecode m N SeekFrame Index Default_Depth (touch_decoder Index s1))))"

text \<open>
  \<open>GetFrame\<close>: the null pointer is \<open>None\<close>; the lookup in the cache moves the block it finds
  to the front.
\<close>

definition GetFrame ::
  "Media \<Rightarrow> int \<Rightarrow> bool \<Rightarrow> BestVideoSource \<Rightarrow> fault + (AVFrame option \<times> BestVideoSource)" where
  "GetFrame m N Linear s =
     (if N < 0 \<or> VP_NumFrames s \<le> N then Inr (None, s)
      else
        (case Cache_GetFrame N (FrameCache s) of
           (Some F, c) \<Rightarrow> Inr (Some F, s\<lparr>FrameCache := c\<rparr>)
         | (None, c) \<Rightarrow>
             if Linear
             then GetFrameLinearInternal m N Default_SeekFrame Default_Depth Default_ForceUnseeked
                    (s\<lparr>FrameCache := c\<rparr>)
             else GetFrameInternal m N (s\<lparr>FrameCache := c\<rparr>)))"

lemma splice_front_hit:
  "splice_front n bs = Some (hit, rest) \<Longrightarrow> FrameNumber hit = n \<and> hit \<in> set bs"
  by (induction bs arbitrary: hit rest) (auto split: if_splits option.splits)

lemma splice_front_None: "splice_front n bs = None \<longleftrightarrow> n \<notin> FrameNumber ` set bs"
  by (induction bs) (auto split: option.splits)

text \<open>
  Claim C3. For \<open>N < 0\<close> and for \<open>N \<ge> VP.NumFrames\<close>, \<open>GetFrame\<close> returns null and leaves the
  engine as it is, whatever the \<open>Linear\<close> flag. For \<open>N\<close> in range with a block of frame number
  \<open>N\<close> in the cache, it returns the frame of the first such block; the engine afterwards
  differs from the one before only in the order of the cache (that block is now first), so
  no decoder has been created, used or destroyed.
\<close>

theorem GetFrame_range_and_cache:
  "(N < 0 \<or> VP_NumFrames s \<le> N \<longrightarrow> GetFrame m N Linear s = Inr (None, s)) \<and>
   (0 \<le> N \<and> N < VP_NumFrames s \<and> N \<in> FrameNumber ` set (Data (FrameCache s)) \<longrightarrow>
      (\<exists>hit rest.
         splice_front N (Data (FrameCache s)) = Some (hit, rest) \<and>
         hit \<in> set (Data (FrameCache s)) \<and> FrameNumber hit = N \<and>
         GetFrame m N Linear s =
           Inr (Some (Frame hit), s\<lparr>FrameCache := (FrameCache s)\<lparr>Data := hit # rest\<rparr>\<rparr>) \<and>
         Decoders (s\<lparr>FrameCache := (FrameCache s)\<lparr>Data := hit # rest\<rparr>\<rparr>) = Decoders s))"
proof (intro conjI impI)
  assume "N < 0 \<or> VP_NumFrames s \<le> N"
  then show "GetFrame m N Linear s = Inr (None, s)"
    by (auto simp: GetFrame_def)
next
  assume a: "0 \<le> N \<and> N < VP_NumFrames s \<and> N \<in> FrameNumber ` set (Data (FrameCache s))"
  then have "splice_front N (Data (FrameCache s)) \<noteq> None"
    by (simp add: splice_front_None)
  then obtain hit rest where sp: "splice_front N (Data (FrameCache s)) = Some (hit, rest)"
    by (cases "splice_front N (Data (FrameCache s))") auto
  from splice_front_hit [OF sp] have h: "FrameNumber hit = N" "hit \<in> set (Data (FrameCache s))"
    by simp_all
  from a sp have "GetFrame m N Linear s =
      Inr (Some (Frame hit), s\<lparr>FrameCache := (FrameCache s)\<lparr>Data := hit # rest\<rparr>\<rparr>)"
    by (simp add: GetFrame_def Cache_GetFrame_def)
  with sp h show "\<exists>hit rest.
         splice_front N (Data (FrameCache s)) = Some (hit, rest) \<and>
         hit \<in> set (Data (FrameCache s)) \<and> FrameNumber hit = N \<and>
         GetFrame m N Linear s =
           Inr (Some (Frame hit), s\<lparr>FrameCache := (FrameCache s)\<lparr>Data := hit # rest\<rparr>\<rparr>) \<and>
         Decoders (s\<lparr>FrameCache := (FrameCache s)\<lparr>Data := hit # rest\<rparr>\<rparr>) = Decoders s"
    by simp
qed

text \<open>An engine over the sample index with both frames in the cache, frame 0 first.\<close>

definition cached_engine :: BestVideoSource where
  "cached_engine =
     (idle_engine sample_index)\<lparr>FrameCache :=
        \<lparr>Data = [\<lparr>FrameNumber = 0, Frame = plain_frame 0 0 True True, Size = 0\<rparr>,
                 \<lparr>FrameNumber = 1, Frame = plain_frame 1001 1 False False, Size = 0\<rparr>],
         CSize = 0, MaxSize = 1024\<rparr>\<rparr>"

theorem GetFrame_range_and_cache_witness:
  "(- 1 < (0::int) \<or> VP_NumFrames cached_engine \<le> - 1) \<and>
   GetFrame (plain_media []) (- 1) False cached_engine = Inr (None, cached_engine) \<and>
   (2 < (0::int) \<or> VP_NumFrames cached_engine \<le> 2) \<and>
   GetFrame (plain_media []) 2 True cached_engine = Inr (None, cached_engine) \<and>
   (0 \<le> (1::int) \<and> 1 < VP_NumFrames cached_engine \<and>
    1 \<in> FrameNumber ` set (Data (FrameCache cached_engine))) \<and>
   GetFrame (plain_media []) 1 False cached_engine =
     Inr (Some (plain_frame 1001 1 False False),
          cached_engine\<lparr>FrameCache :=
            \<lparr>Data = [\<lparr>FrameNumber = 1, Frame = plain_frame 1001 1 False False, Size = 0\<rparr>,
                     \<lparr>FrameNumber = 0, Frame = plain_frame 0 0 True True, Size = 0\<rparr>],
             CSize = 0, MaxSize = 1024\<rparr>\<rparr>)"
  using GetFrame_range_and_cache [of "- 1" cached_engine "plain_media []" False]
    GetFrame_range_and_cache [of 2 cached_engine "plain_media []" True]
    GetFrame_range_and_cache [of 1 cached_engine "plain_media []" False]
  by (auto simp: cached_engine_def idle_engine_def sample_index_def VP_NumFrames_def)


section \<open>A source that loses a frame after every seek\<close>

text \<open>
  A stream of \<open>n\<close> frames with a key frame every 100 frames; the timestamp of frame \<open>i\<close> is
  \<open>i\<close> and the digest of a frame is its timestamp, so every frame of the index is identified
  by its hash. The library accepts every seek and delivers the frame with the requested
  timestamp first, but loses the frame after it: the decoder is at the right place after a
  seek and then returns frames that are one position ahead, the case the hash check in
  \<open>GetFrameLinearInternal\<close> (line 1159) is there for.
\<close>

definition gop_frame :: "nat \<Rightarrow> AVFrame" where
  "gop_frame i = plain_frame (of_nat i) 0 (i mod 100 = 0) True"

definition gop_stream :: "nat \<Rightarrow> AVFrame list" where
  "gop_stream n = map gop_frame [0..<n]"

definition drop_second :: "AVFrame list \<Rightarrow> AVFrame list" where
  "drop_second fs = (case fs of F # G # rest \<Rightarrow> F # rest | _ \<Rightarrow> fs)"

definition lossy_media :: "nat \<Rightarrow> Media" where
  "lossy_media n =
     \<lparr>stream = gop_stream n,
      seek_stream = (\<lambda>ts. Some (drop_second (drop (unat ts) (gop_stream n)))),
      codec_h264 = False, GetHash = pts, log2_chroma_h = (\<lambda>fmt. 0),
      make_writable = (\<lambda>F. True)\<rparr>"

definition gop_index :: "nat \<Rightarrow> FrameInfo list" where
  "gop_index n = map (FrameInfo_of (lossy_media n)) (gop_stream n)"

text \<open>
  The engine that the constructor returns for this source (\<open>lossy_engine_constructed\<close> below):
  the index of the stream, and in slot 0 the decoder that has delivered the first frame.
\<close>

definition lossy_engine :: "nat \<Rightarrow> BestVideoSource" where
  "lossy_engine n =
     \<lparr>TrackIndex = \<lparr>Frames = gop_index n, LastFrameDuration = 1\<rparr>,
      RFFFields = [], FrameCache = Cache_init,
      Decoders = (\<lambda>i. None)(0 := Some \<lparr>CurrentFrame = 1, DecodeSuccess = True, Seeked = False,
                                          pending = drop 1 (gop_stream n)\<rparr>),
      DecoderLastUse = (\<lambda>i. 0), DecoderSequenceNum = 0,
      BadSeekLocations = {}, PreRoll = 0, LinearMode = False\<rparr>"

lemma length_gop_stream: "length (gop_stream n) = n"
  by (simp add: gop_stream_def)

lemma length_gop_index: "length (gop_index n) = n"
  by (simp add: gop_index_def length_gop_stream)

lemma gop_stream_nth: "i < n \<Longrightarrow> gop_stream n ! i = gop_frame i"
  by (simp add: gop_stream_def)

lemma gop_index_nth:
  "i < n \<Longrightarrow> gop_index n ! i =
     \<lparr>PTS = of_nat i, RepeatPict = 0, KeyFrame = (i mod 100 = 0), TFF = True, Hash = of_nat i\<rparr>"
  by (simp add: gop_index_def gop_stream_nth length_gop_stream FrameInfo_of_def gop_frame_def
      plain_frame_def lossy_media_def)

lemma drop_gop_stream: "k < n \<Longrightarrow> drop k (gop_stream n) = gop_frame k # drop (Suc k) (gop_stream n)"
  using Cons_nth_drop_Suc [of k "gop_stream n"] by (simp add: gop_stream_nth length_gop_stream)

lemma DecodeNextFrame_gop:
  "k < n \<Longrightarrow>
   DecodeNextFrame \<lparr>CurrentFrame = c, DecodeSuccess = b, Seeked = sk, pending = drop k (gop_stream n)\<rparr> =
     (Some (gop_frame k),
      \<lparr>CurrentFrame = c, DecodeSuccess = b, Seeked = sk, pending = drop (Suc k) (gop_stream n)\<rparr>)"
  by (simp add: DecodeNextFrame_def drop_gop_stream)

lemma DecodeNextFrame_Cons:
  "DecodeNextFrame \<lparr>CurrentFrame = c, DecodeSuccess = b, Seeked = sk, pending = F # fs\<rparr> =
     (Some F, \<lparr>CurrentFrame = c, DecodeSuccess = b, Seeked = sk, pending = fs\<rparr>)"
  by (simp add: DecodeNextFrame_def)

lemma SkipFrames_loop_gop:
  "k + j \<le> n \<Longrightarrow>
   SkipFrames_loop j \<lparr>CurrentFrame = c, DecodeSuccess = True, Seeked = sk, pending = drop k (gop_stream n)\<rparr> =
     \<lparr>CurrentFrame = c + int j, DecodeSuccess = True, Seeked = sk, pending = drop (k + j) (gop_stream n)\<rparr>"
proof (induction j arbitrary: c k)
  case 0
  then show ?case by simp
next
  case (Suc j)
  from Suc.prems have "k < n" "Suc k + j \<le> n" by simp_all
  with Suc.IH [of "Suc k" "c + 1"] show ?case
    by (simp add: DecodeNextFrame_gop)
qed

lemma SkipFrames_gop:
  "0 \<le> j \<Longrightarrow> k + nat j \<le> n \<Longrightarrow>
   SkipFrames j \<lparr>CurrentFrame = c, DecodeSuccess = True, Seeked = sk, pending = drop k (gop_stream n)\<rparr> =
     \<lparr>CurrentFrame = c + j, DecodeSuccess = True, Seeked = sk, pending = drop (k + nat j) (gop_stream n)\<rparr>"
  by (simp add: SkipFrames_def SkipFrames_loop_gop)

lemma drop_second_gop:
  "Suc k < n \<Longrightarrow> drop_second (drop k (gop_stream n)) = gop_frame k # drop (k + 2) (gop_stream n)"
  by (simp add: drop_second_def drop_gop_stream)

lemma slots: "[0..<4] = [0, 1, 2, Suc 2]"
  by (simp add: upt_rec)

lemmas eval_rules = slots LWVideoDecoder_new_def
  GetFrame_def GetFrameInternal_def GetFrameLinearInternal_def SeekAndDecode_def
  Cache_GetFrame_def Cache_init_def VP_NumFrames_def length_gop_index gop_index_nth
  GetSeekFrame_def GetSeekFrame_loop.simps run.simps SeekAndDecode_body_def
  GetFrameLinearInternal_body_def GetFrameLinearInternal_loop.simps GetFrameLinearInternal_iter_def
  SeekAndDecode_loop.simps SeekAndDecode_iter_def judge_def
  retry_seek_def bad_linear_frame_def drop_finished_def touch_decoder_def set_decoder_def
  scan_slots_def scan_slot_def FrameNumber_at_def seek_slot_def SetLinearMode_def
  MaxVideoSources_def RetrySeekAttempts_def Default_SeekFrame_def Default_Depth_def
  Default_ForceUnseeked_def GetNextFrame_def DecodeNextFrame_gop DecodeNextFrame_Cons
  SkipFrames_gop drop_second_gop Seek_def lossy_media_def gop_frame_def plain_frame_def
  CacheFrame_def CacheBlock_new_def ApplyMaxSize.simps AV_NOPTS_VALUE_def INT64_MIN_def
  Let_def lossy_engine_def Clear_def

lemma filter_eq_upt: "k < n \<Longrightarrow> filter (\<lambda>i. i = k) [0..<n] = [k]"
  by (induction n) auto

lemma find_matches_gop:
  assumes "unat h < n" and "n \<le> 2 ^ 64"
  shows "find_matches (gop_index n) [(F, h)] True = [unat h]"
proof -
  have "filter (HashMatch (gop_index n) [(F, h)]) [0..<n] = filter (\<lambda>i. i = unat h) [0..<n]"
  proof (rule filter_cong [OF refl])
    fix i assume "i \<in> set [0..<n]"
    then have i: "i < n" by simp
    with assms(2) have "i < 2 ^ 64" by simp
    then have "unat (of_nat i :: 64 word) = i" by (simp add: unat_of_nat)
    then have "(h = (of_nat i :: 64 word)) = (i = unat h)" by (auto simp: word_unat_eq_iff)
    with i show "HashMatch (gop_index n) [(F, h)] i = (i = unat h)"
      by (simp add: HashMatch_def gop_index_nth)
  qed
  with assms(1) show ?thesis
    by (simp add: find_matches_def length_gop_index filter_eq_upt Suc_leI)
qed

lemmas eval_rules2 = eval_rules find_matches_gop

text \<open>
  The calls of \<open>SeekAndDecode\<close> and \<open>GetFrameLinearInternal\<close> that a call leads to, in order
  and with their arguments, itself first: \<open>run\<close> with a record of where it goes.
\<close>

function calls_of :: "Media \<Rightarrow> Call \<Rightarrow> BestVideoSource \<Rightarrow> Call list" where
  "calls_of m c s =
     c # (case step m c s of
            Return RetFrame s' \<Rightarrow> []
          | TailCall c' s' \<Rightarrow> calls_of m c' s'
          | Stuck \<Rightarrow> [])"
  by pat_completeness auto
termination
  apply (relation "inv_image call_order (\<lambda>(m, c, s). (c, s))")
   apply (simp add: wf_call_order)
  apply (simp only: in_inv_image prod.case)
  apply (erule step_decreases)
  done

declare calls_of.simps [simp del]

lemma IndexTrack_loop_duration:
  "DecodeSuccess d \<Longrightarrow>
     LastFrameDuration (IndexTrack_loop m d idx) =
       (if pending d = [] then LastFrameDuration idx else duration (last (pending d)))"
proof (induction "pending d" arbitrary: d idx)
  case Nil
  then show ?case
    by (subst IndexTrack_loop.simps) (simp add: GetNextFrame_def DecodeNextFrame_def)
next
  case (Cons F fs)
  let ?d' = "d\<lparr>pending := fs, DecodeSuccess := True, CurrentFrame := CurrentFrame d + 1\<rparr>"
  let ?idx' = "idx\<lparr>Frames := Frames idx @ [FrameInfo_of m F], LastFrameDuration := duration F\<rparr>"
  from Cons.hyps(2) Cons.prems have next_frame: "GetNextFrame d = (Some F, ?d')"
    by (simp add: GetNextFrame_def DecodeNextFrame_def Cons.hyps(2) [symmetric])
  have "LastFrameDuration (IndexTrack_loop m ?d' ?idx') =
      (if pending ?d' = [] then LastFrameDuration ?idx' else duration (last (pending ?d')))"
    by (rule Cons.hyps(1)) simp_all
  moreover have "IndexTrack_loop m d idx = IndexTrack_loop m ?d' ?idx'"
    by (subst IndexTrack_loop.simps) (simp add: next_frame)
  ultimately show ?case
    by (simp add: Cons.hyps(2) [symmetric])
qed

lemma lossy_engine_constructed:
  "BestVideoSource_new (lossy_media 552) sr ver opt 0 None False d0 = Inr (lossy_engine 552, None)"
proof -
  let ?m = "lossy_media 552"
  let ?idx0 = "\<lparr>Frames = [], LastFrameDuration = d0\<rparr>"
  have st: "stream ?m = gop_stream 552" by (simp add: lossy_media_def)
  have ne: "gop_stream 552 = gop_frame 0 # drop 1 (gop_stream 552)"
    using drop_gop_stream [of 0 552] by simp
  have lastf: "last (gop_stream 552) = gop_frame 551"
    by (simp add: gop_stream_def last_map)
  obtain b idx where it: "IndexTrack ?m ?idx0 = (b, idx)" by (cases "IndexTrack ?m ?idx0")
  from IndexTrack_frames [of ?m ?idx0] it st have fr: "Frames idx = gop_index 552"
    by (simp add: gop_index_def)
  from it IndexTrack_ok [of ?m ?idx0] fr have b: b
    using length_gop_index [of 552] by auto
  from it have "idx = IndexTrack_loop ?m (LWVideoDecoder_new ?m) (?idx0\<lparr>LastFrameDuration := 0\<rparr>)"
    by (simp add: IndexTrack_def Let_def)
  moreover have nonempty: "gop_stream 552 \<noteq> []"
    using length_gop_stream [of 552] by auto
  ultimately have "LastFrameDuration idx = duration (last (gop_stream 552))"
    using IndexTrack_loop_duration [of "LWVideoDecoder_new ?m" ?m "?idx0\<lparr>LastFrameDuration := 0\<rparr>"]
    by (simp add: LWVideoDecoder_new_def st)
  with lastf have du: "LastFrameDuration idx = 1"
    by (simp add: gop_frame_def plain_frame_def)
  from fr du have idx: "idx = \<lparr>Frames = gop_index 552, LastFrameDuration = 1\<rparr>"
    by (cases idx) simp
  have rd: "ReadVideoTrackIndex sr ver opt None ?idx0 = (False, ?idx0)"
    by (simp add: ReadVideoTrackIndex_def)
  have dec: "snd (GetNextFrame (LWVideoDecoder_new ?m)) =
      \<lparr>CurrentFrame = 1, DecodeSuccess = True, Seeked = False, pending = drop 1 (gop_stream 552)\<rparr>"
  proof -
    from st ne have "stream ?m = gop_frame 0 # drop 1 (gop_stream 552)" by simp
    then show ?thesis
      by (simp add: GetNextFrame_def DecodeNextFrame_def LWVideoDecoder_new_def)
  qed
  obtain fi rest where first: "gop_index 552 = fi # rest"
    using length_gop_index [of 552] by (cases "gop_index 552") auto
  then have "fi = gop_index 552 ! 0" by simp
  then have rp: "sint (RepeatPict fi) = 0"
    by (simp add: gop_index_nth)
  from b rd it have "BestVideoSource_new ?m sr ver opt 0 None False d0 =
      (case Frames idx of
         [] \<Rightarrow> Inl Undefined
       | fi # x \<Rightarrow>
           if sint (RepeatPict fi) < 0 then Inl (Throw UnexpectedRFFQuirk)
           else Inr (\<lparr>TrackIndex = idx, RFFFields = [], FrameCache = Cache_init,
                      Decoders = (\<lambda>i. None)(0 := Some (snd (GetNextFrame (LWVideoDecoder_new ?m)))),
                      DecoderLastUse = (\<lambda>i. 0), DecoderSequenceNum = 0,
                      BadSeekLocations = {}, PreRoll = 0, LinearMode = False\<rparr>, None))"
    by (simp add: BestVideoSource_new_def Let_def WriteVideoTrackIndex_def)
  also have "\<dots> = Inr (lossy_engine 552, None)"
    by (simp add: idx first rp dec lossy_engine_def)
  finally show ?thesis .
qed

text \<open>
  The engine at the call \<open>SeekAndDecode(N, SeekFrame, Decoders[Index])\<close> of line 1122 for
  \<open>GetFrame(550)\<close>: slot 3 is the empty slot chosen, with a new decoder.
\<close>

definition seek_entry :: BestVideoSource where
  "seek_entry =
     touch_decoder 3 (set_decoder 3 (Some (LWVideoDecoder_new (lossy_media 552))) (lossy_engine 552))"

lemma GetFrame_entry:
  "GetFrame (lossy_media 552) 550 False (lossy_engine 552) =
     run (lossy_media 552) (SeekAndDecode_call 550 500 3 0) seek_entry"
  by (simp add: seek_entry_def GetFrame_def GetFrameInternal_def SeekAndDecode_def slots
       Cache_GetFrame_def Cache_init_def VP_NumFrames_def length_gop_index gop_index_nth
       GetSeekFrame_def GetSeekFrame_loop.simps seek_slot_def MaxVideoSources_def
       Default_Depth_def lossy_engine_def AV_NOPTS_VALUE_def INT64_MIN_def Let_def
       touch_decoder_def set_decoder_def)

lemmas trace_rules = slots LWVideoDecoder_new_def
  Cache_GetFrame_def Cache_init_def VP_NumFrames_def length_gop_index gop_index_nth
  GetSeekFrame_def GetSeekFrame_loop.simps calls_of.simps SeekAndDecode_body_def
  GetFrameLinearInternal_body_def GetFrameLinearInternal_loop.simps GetFrameLinearInternal_iter_def
  SeekAndDecode_loop.simps SeekAndDecode_iter_def judge_def
  retry_seek_def bad_linear_frame_def drop_finished_def touch_decoder_def set_decoder_def
  scan_slots_def scan_slot_def FrameNumber_at_def SetLinearMode_def
  MaxVideoSources_def RetrySeekAttempts_def Default_SeekFrame_def Default_Depth_def
  Default_ForceUnseeked_def GetNextFrame_def DecodeNextFrame_gop DecodeNextFrame_Cons
  SkipFrames_gop drop_second_gop Seek_def lossy_media_def gop_frame_def plain_frame_def
  CacheFrame_def CacheBlock_new_def ApplyMaxSize.simps AV_NOPTS_VALUE_def INT64_MIN_def
  Let_def lossy_engine_def Clear_def find_matches_gop seek_entry_def

lemma seek_trace:
  "calls_of (lossy_media 552) (SeekAndDecode_call 550 500 3 0) seek_entry =
     [SeekAndDecode_call 550 500 3 0, GetFrameLinearInternal_call 550 500 0 False,
      SeekAndDecode_call 550 400 3 1, GetFrameLinearInternal_call 550 400 0 False,
      SeekAndDecode_call 550 300 3 1, GetFrameLinearInternal_call 550 300 0 False,
      SeekAndDecode_call 550 200 3 1, GetFrameLinearInternal_call 550 200 0 False,
      SeekAndDecode_call 550 100 3 1, GetFrameLinearInternal_call 550 100 0 False,
      GetFrameLinearInternal_call 550 (- 1) 0 False]"
  by (simp add: trace_rules)


lemma seek_result:
  "(case run (lossy_media 552) (SeekAndDecode_call 550 500 3 0) seek_entry of
      Inl e \<Rightarrow> False
    | Inr (F, s) \<Rightarrow>
        F = Some (gop_frame 550) \<and> BadSeekLocations s = {100, 200, 300, 400, 500} \<and>
        \<not> LinearMode s)"
  by (simp add: eval_rules2 seek_entry_def) 

text \<open>
  Claim C2 at \<open>GetFrame(550)\<close> on the engine constructed for the stream of 552 frames. The
  request reaches \<open>SeekAndDecode(550, 500, Decoders[3], 0)\<close>. Every seek is matched at its key
  frame and handed to \<open>GetFrameLinearInternal(N, SeekFrame)\<close> of line 1074, where \<open>Depth\<close> is
  the default 0 again; the hash check fails there, and the retry is
  \<open>SeekAndDecode(N, SeekFrameNext, Decoder, Depth + 1)\<close> with \<open>Depth + 1 = 1\<close>. Five seeks are
  made, to the frames 500, 400, 300, 200 and 100, the last four of them retries, all four
  at depth 1; the five seek frames are blacklisted, linear mode is never set, and the frame
  is in the end decoded linearly from the decoder of slot 0.
\<close>

theorem GetFrame_seek_retries:
  "BestVideoSource_new (lossy_media 552) sample_short 7 sample_options 0 None False 0 =
     Inr (lossy_engine 552, None) \<and>
   GetFrame (lossy_media 552) 550 False (lossy_engine 552) =
     run (lossy_media 552) (SeekAndDecode_call 550 500 3 0) seek_entry \<and>
   calls_of (lossy_media 552) (SeekAndDecode_call 550 500 3 0) seek_entry =
     [SeekAndDecode_call 550 500 3 0, GetFrameLinearInternal_call 550 500 0 False,
      SeekAndDecode_call 550 400 3 1, GetFrameLinearInternal_call 550 400 0 False,
      SeekAndDecode_call 550 300 3 1, GetFrameLinearInternal_call 550 300 0 False,
      SeekAndDecode_call 550 200 3 1, GetFrameLinearInternal_call 550 200 0 False,
      SeekAndDecode_call 550 100 3 1, GetFrameLinearInternal_call 550 100 0 False,
      GetFrameLinearInternal_call 550 (- 1) 0 False] \<and>
   (case GetFrame (lossy_media 552) 550 False (lossy_engine 552) of
      Inl e \<Rightarrow> False
    | Inr (F, s) \<Rightarrow>
        F = Some (gop_frame 550) \<and> BadSeekLocations s = {100, 200, 300, 400, 500} \<and>
        \<not> LinearMode s)"
  using seek_result
  by (simp only: lossy_engine_constructed GetFrame_entry seek_trace simp_thms)


section \<open>Access by time\<close>





























end
